theory Spec2Isabelle
  imports Main
begin

section \<open>JavaScript strings and the regular expressions of the filter\<close>

text \<open>
  A JavaScript string is modelled as a \<^typ>\<open>string\<close>: a list of code units, of
  which the model has the 256 from 0 to 255. The backslash and the two quote characters
  are written by their codes.
\<close>

abbreviation bs :: char where "bs \<equiv> CHR 0x5C"
abbreviation dq :: char where "dq \<equiv> CHR 0x22"
abbreviation sq :: char where "sq \<equiv> CHR 0x27"

text \<open>
  The regular expressions of \<^verbatim>\<open>image.js\<close> are sequences of single-character
  atoms, each taken once or under one of the greedy quantifiers \<^verbatim>\<open>?\<close>,
  \<^verbatim>\<open>*\<close>, \<^verbatim>\<open>+\<close>, with at most one capturing group whose two
  parentheses are the items \<open>Mark\<close>. An atom is a literal character, the dot
  (any character but a line end), a class \<^verbatim>\<open>[...]\<close> or a negated class
  \<^verbatim>\<open>[^...]\<close> of listed characters, or one of \<^verbatim>\<open>\d\<close>, \<^verbatim>\<open>\w\<close>,
  \<^verbatim>\<open>\s\<close>. No expression of the file has a flag other than \<^verbatim>\<open>g\<close>.
\<close>

datatype atom =
    Lit char
  | AnyChar
  | OneOf "char list"
  | NoneOf "char list"
  | Digit
  | WordChar
  | Space

datatype item = One atom | Opt atom | Star atom | Plus atom | Mark

type_synonym regex = "item list"

fun atom_ok :: "atom \<Rightarrow> char \<Rightarrow> bool" where
  "atom_ok (Lit a) c = (c = a)"
| "atom_ok AnyChar c = (c \<noteq> CHR 0x0A \<and> c \<noteq> CHR 0x0D)"
| "atom_ok (OneOf cs) c = (c \<in> set cs)"
| "atom_ok (NoneOf cs) c = (c \<notin> set cs)"
| "atom_ok Digit c = (c \<in> set ''0123456789'')"
| "atom_ok WordChar c =
     (c \<in> set ''abcdefghijklmnopqrstuvwxyzABCDEFGHIJKLMNOPQRSTUVWXYZ0123456789_'')"
| "atom_ok Space c =
     (c \<in> set [CHR 0x09, CHR 0x0A, CHR 0x0B, CHR 0x0C, CHR 0x0D, CHR 0x20, CHR 0xA0])"

definition lits :: "string \<Rightarrow> regex" where
  "lits s = map (\<lambda>c. One (Lit c)) s"

text \<open>
  \<open>rmatch re s\<close> is the backtracking match of \<open>re\<close> anchored at the start of \<open>s\<close>:
  a quantifier first tries to take one more character and gives it back when the rest
  of the expression fails. The result is the text left after the match, and the text
  left at each \<open>Mark\<close> passed.
\<close>

fun rmatch :: "regex \<Rightarrow> string \<Rightarrow> (string list \<times> string) option" where
  "rmatch [] s = Some ([], s)"
| "rmatch (Mark # r) s =
     (case rmatch r s of None \<Rightarrow> None | Some (ms, e) \<Rightarrow> Some (s # ms, e))"
| "rmatch (One a # r) [] = None"
| "rmatch (One a # r) (c # cs) = (if atom_ok a c then rmatch r cs else None)"
| "rmatch (Opt a # r) [] = rmatch r []"
| "rmatch (Opt a # r) (c # cs) =
     (if atom_ok a c
      then (case rmatch r cs of Some m \<Rightarrow> Some m | None \<Rightarrow> rmatch r (c # cs))
      else rmatch r (c # cs))"
| "rmatch (Star a # r) [] = rmatch r []"
| "rmatch (Star a # r) (c # cs) =
     (if atom_ok a c
      then (case rmatch (Star a # r) cs of Some m \<Rightarrow> Some m | None \<Rightarrow> rmatch r (c # cs))
      else rmatch r (c # cs))"
| "rmatch (Plus a # r) [] = None"
| "rmatch (Plus a # r) (c # cs) = (if atom_ok a c then rmatch (Star a # r) cs else None)"

text \<open>
  \<open>rexec re s\<close> searches for the leftmost position of \<open>s\<close> where \<open>re\<close> matches,
  as \<^verbatim>\<open>RegExp.prototype.exec\<close> does from index 0: the result is the index of the
  match, the marks and the text after the match.
\<close>

fun rexec :: "regex \<Rightarrow> string \<Rightarrow> (nat \<times> string list \<times> string) option" where
  "rexec re [] = (case rmatch re [] of None \<Rightarrow> None | Some (ms, e) \<Rightarrow> Some (0, ms, e))"
| "rexec re (c # cs) =
     (case rmatch re (c # cs) of
        Some (ms, e) \<Rightarrow> Some (0, ms, e)
      | None \<Rightarrow> (case rexec re cs of None \<Rightarrow> None | Some (i, m) \<Rightarrow> Some (Suc i, m)))"

definition regex_test :: "regex \<Rightarrow> string \<Rightarrow> bool" where
  "regex_test re s = (rexec re s \<noteq> None)"

text \<open>The text between two marks: what a capturing group holds.\<close>

definition between :: "string \<Rightarrow> string \<Rightarrow> string" where
  "between m1 m2 = take (length m1 - length m2) m1"

text \<open>
  The first group of a match of an expression with its two marks (the second equation
  is for lists of marks that no such match gives).
\<close>

fun group1 :: "string list \<Rightarrow> string" where
  "group1 (m1 # m2 # ms) = between m1 m2"
| "group1 ms = []"

text \<open>
  \<^verbatim>\<open>String.prototype.replace(re, replacement)\<close> for an expression without the
  \<^verbatim>\<open>g\<close> flag and with one capturing group: the leftmost match is replaced by the
  expansion of the replacement text, in which \<^verbatim>\<open>$$\<close> is a dollar sign,
  \<^verbatim>\<open>$&\<close> the matched text, \<^verbatim>\<open>$`\<close> and \<^verbatim>\<open>$'\<close> the text before
  and after the match, \<^verbatim>\<open>$1\<close> and \<^verbatim>\<open>$01\<close> the group; any other dollar
  sign stands for itself.
\<close>

fun expand :: "string \<Rightarrow> string \<Rightarrow> string \<Rightarrow> string \<Rightarrow> string \<Rightarrow> string" where
  "expand m g pre post [] = []"
| "expand m g pre post [c] = [c]"
| "expand m g pre post (c # d # r) =
     (if c \<noteq> CHR ''$'' then c # expand m g pre post (d # r)
      else if d = CHR ''$'' then CHR ''$'' # expand m g pre post r
      else if d = CHR ''&'' then m @ expand m g pre post r
      else if d = CHR 0x60 then pre @ expand m g pre post r
      else if d = sq then post @ expand m g pre post r
      else if d = CHR ''1'' then g @ expand m g pre post r
      else if d = CHR ''0'' then
        (case r of
           [] \<Rightarrow> c # expand m g pre post (d # r)
         | e # r' \<Rightarrow>
             if e = CHR ''1'' then g @ expand m g pre post r'
             else c # expand m g pre post (d # r))
      else c # expand m g pre post (d # r))"

definition replace_first :: "regex \<Rightarrow> string \<Rightarrow> string \<Rightarrow> string" where
  "replace_first re replacement s =
     (case rexec re s of
        None \<Rightarrow> s
      | Some (i, ms, rest) \<Rightarrow>
          take i s
          @ expand (take (length s - i - length rest) (drop i s)) (group1 ms) (take i s) rest
              replacement
          @ rest)"

text \<open>
  \<^verbatim>\<open>String.prototype.indexOf\<close>: the index of the first occurrence, or -1.
\<close>

fun indexOf_from :: "string \<Rightarrow> string \<Rightarrow> int \<Rightarrow> int" where
  "indexOf_from [] p i = (if p = [] then i else -1)"
| "indexOf_from (c # cs) p i =
     (if take (length p) (c # cs) = p then i else indexOf_from cs p (i + 1))"

definition str_indexOf :: "string \<Rightarrow> string \<Rightarrow> int" where
  "str_indexOf s p = indexOf_from s p 0"

text \<open>
  A value that is a string or \<^verbatim>\<open>null\<close> is truthy when it is a non-empty string.
\<close>

fun truthy :: "string option \<Rightarrow> bool" where
  "truthy None = False"
| "truthy (Some s) = (s \<noteq> [])"

section \<open>The helpers of \<^verbatim>\<open>CKEDITOR.tools.array\<close>\<close>

text \<open>
  Modelled from the spec: \<^verbatim>\<open>CKEDITOR.tools.array.find\<close>,
  \<^verbatim>\<open>CKEDITOR.tools.array.indexOf\<close> and \<^verbatim>\<open>CKEDITOR.tools.array.map\<close> are not
  in the source file. The spec has the classifier test its list with "first match
  wins", the extractor locate a record by a "linear scan of output built so far" with
  a position or "not found" (-1 in the code), and the encoded list be the map of the
  records, "same length and order".
\<close>

fun array_find :: "'a list \<Rightarrow> ('a \<Rightarrow> bool) \<Rightarrow> 'a option" where
  "array_find [] p = None"
| "array_find (x # xs) p = (if p x then Some x else array_find xs p)"

fun array_indexOf_from :: "'a list \<Rightarrow> ('a \<Rightarrow> bool) \<Rightarrow> int \<Rightarrow> int" where
  "array_indexOf_from [] p i = -1"
| "array_indexOf_from (x # xs) p i = (if p x then i else array_indexOf_from xs p (i + 1))"

definition array_indexOf :: "'a list \<Rightarrow> ('a \<Rightarrow> bool) \<Rightarrow> int" where
  "array_indexOf xs p = array_indexOf_from xs p 0"

datatype js_error = TypeError | SyntaxError

text \<open>The map stops at the first exception its callback throws.\<close>

fun array_map :: "'a list \<Rightarrow> ('a \<Rightarrow> js_error + 'b) \<Rightarrow> js_error + 'b list" where
  "array_map [] f = Inr []"
| "array_map (x # xs) f =
     (case f x of
        Inl e \<Rightarrow> Inl e
      | Inr y \<Rightarrow> (case array_map xs f of Inl e \<Rightarrow> Inl e | Inr ys \<Rightarrow> Inr (y # ys)))"

section \<open>The image type classifier\<close>

definition supportedImageTypes :: "string list" where
  "supportedImageTypes = [''image/png'', ''image/jpeg'']"

text \<open>
  Each entry is a marker and its type; the markers are \<^verbatim>\<open>/\\pngblip/\<close>,
  \<^verbatim>\<open>/\\jpegblip/\<close>, \<^verbatim>\<open>/\\emfblip/\<close> and \<^verbatim>\<open>/\\wmetafile\d/\<close>.
\<close>

definition recognizableImageTypes :: "(regex \<times> string) list" where
  "recognizableImageTypes =
     [ (lits (bs # ''pngblip''), ''image/png''),
       (lits (bs # ''jpegblip''), ''image/jpeg''),
       (lits (bs # ''emfblip''), ''image/emf''),
       (lits (bs # ''wmetafile'') @ [One Digit], ''image/wmf'') ]"

definition getImageType :: "string \<Rightarrow> string" where
  "getImageType imageContent =
     (case array_find recognizableImageTypes (\<lambda>test. regex_test (fst test) imageContent) of
        Some extractedType \<Rightarrow> snd extractedType
      | None \<Rightarrow> ''unknown'')"

section \<open>What the filter takes from its surroundings\<close>

text \<open>
  The functions of the source file call code that is not in it: the RTF group
  primitives of \<^verbatim>\<open>CKEDITOR.plugins.pastetools.filters.common.rtf\<close> and the two
  byte encoders of \<^verbatim>\<open>CKEDITOR.tools\<close>. They are parameters of the model, the fields
  of an \<open>environment\<close>:
  \<^item> \<open>removeGroups\<close>, \<open>getGroups\<close> (\<open>None\<close> is a falsy result, \<open>Some\<close> the
    \<^verbatim>\<open>content\<close> of each group in order) and \<open>extractGroupContent\<close>;
  \<^item> \<open>convertHexStringToBytes\<close> and \<open>convertBytesToBase64\<close>.
\<close>

record environment =
  removeGroups :: "string \<Rightarrow> string \<Rightarrow> string"
  getGroups :: "string \<Rightarrow> string \<Rightarrow> string list option"
  extractGroupContent :: "string \<Rightarrow> string"
  convertHexStringToBytes :: "string \<Rightarrow> nat list"
  convertBytesToBase64 :: "nat list \<Rightarrow> string"

text \<open>
  The reconciler builds the text of a regular expression at run time. The model reads
  the part of the expression syntax given with \<open>compile_path\<close> below; what
  \<^verbatim>\<open>text.replace( new RegExp( source ), replacement )\<close> does for any other pattern
  text, a \<open>SyntaxError\<close> or a new text, is one more parameter, of this type. No
  value is ever chosen for it: every statement below holds for all of them.
\<close>

type_synonym other_patterns = "string \<Rightarrow> string \<Rightarrow> string \<Rightarrow> js_error + string"

text \<open>The editor: its active filter, when it has one, answers \<^verbatim>\<open>check\<close>.\<close>

record editor =
  activeFilter :: "(string \<Rightarrow> bool) option"

text \<open>The calls of \<^verbatim>\<open>CKEDITOR.error\<close>, in the order they are made.\<close>

datatype report =
    FailedImageExtraction nat nat
  | UnsupportedImage string nat

section \<open>Image records\<close>

text \<open>
  \<^verbatim>\<open>ImageData\<close>: \<open>id'\<close> and \<open>hex\<close> are a string or \<^verbatim>\<open>null\<close>.
\<close>

record ImageData =
  id' :: "string option"
  hex :: "string option"
  type :: string

text \<open>
  The array \<^verbatim>\<open>ret\<close> of \<^verbatim>\<open>extractFromRtf\<close> holds references: pushing
  \<^verbatim>\<open>ret[ imageDataIndex ]\<close> again stores the same object a second time. The model
  keeps the objects created so far in \<open>heap\<close>, an object's address being its index
  there, and \<open>ret\<close> as the list of addresses.
\<close>

record extraction =
  heap :: "ImageData list"
  ret :: "nat list"

definition deref :: "extraction \<Rightarrow> nat \<Rightarrow> ImageData" where
  "deref st i = heap st ! (ret st ! i)"

text \<open>The array as a list of records, each reference followed.\<close>

definition images :: "extraction \<Rightarrow> ImageData list" where
  "images st = map (\<lambda>a. heap st ! a) (ret st)"

section \<open>\<^verbatim>\<open>extractFromRtf\<close>\<close>

text \<open>
  The expressions \<^verbatim>\<open>/\\blipuid (\w+)\}/\<close> and \<^verbatim>\<open>/\\bliptag(-?\d+)/\<close>.
\<close>

definition blipUidRegex :: regex where
  "blipUidRegex = lits (bs # ''blipuid '') @ [Mark, Plus WordChar, Mark, One (Lit (CHR ''}''))]"

definition blipTagRegex :: regex where
  "blipTagRegex = lits (bs # ''bliptag'') @ [Mark, Opt (Lit (CHR ''-'')), Plus Digit, Mark]"

definition getImageId :: "string \<Rightarrow> string option" where
  "getImageId img =
     (let blipUidMatch = rexec blipUidRegex img;
          blipTagMatch = rexec blipTagRegex img
      in case blipUidMatch of
           Some (i, ms, rest) \<Rightarrow> Some (group1 ms)
         | None \<Rightarrow>
             (case blipTagMatch of
                Some (i, ms, rest) \<Rightarrow> Some (group1 ms)
              | None \<Rightarrow> None))"

definition getImageIndex :: "extraction \<Rightarrow> string option \<Rightarrow> int" where
  "getImageIndex st ident =
     (case ident of
        None \<Rightarrow> -1
      | Some s \<Rightarrow> array_indexOf (images st) (\<lambda>img. id' img = Some s))"

text \<open>\<^verbatim>\<open>content.replace( /\s/g, '' )\<close> drops every blank character.\<close>

definition getImageContent :: "environment \<Rightarrow> string \<Rightarrow> string" where
  "getImageContent E img =
     (let content = extractGroupContent E img
      in filter (\<lambda>c. \<not> atom_ok Space c) content)"

text \<open>One turn of the loop over \<^verbatim>\<open>wholeImages\<close>.\<close>

definition extract_step :: "environment \<Rightarrow> extraction \<Rightarrow> string \<Rightarrow> extraction" where
  "extract_step E st currentImage =
     (let imageId = getImageId currentImage;
          imageType = getImageType currentImage;
          imageDataIndex = getImageIndex st imageId;
          isAlreadyExtracted =
            (if imageDataIndex \<noteq> -1 then truthy (hex (deref st (nat imageDataIndex))) else False);
          isDuplicated =
            (if isAlreadyExtracted then type (deref st (nat imageDataIndex)) = imageType else False);
          isAlternateFormat =
            (if isAlreadyExtracted
             then type (deref st (nat imageDataIndex)) \<noteq> imageType
                  \<and> imageDataIndex = int (length (ret st)) - 1
             else False);
          isWordArtShape = (str_indexOf currentImage (bs # ''defshp'') \<noteq> -1);
          isSupportedType = (array_indexOf supportedImageTypes (\<lambda>t. t = imageType) \<noteq> -1)
      in if isDuplicated then st\<lparr>ret := ret st @ [ret st ! nat imageDataIndex]\<rparr>
         else if isAlternateFormat \<or> isWordArtShape then st
         else
           (let newImageData =
                  \<lparr>id' = imageId,
                   hex = (if isSupportedType then Some (getImageContent E currentImage) else None),
                   type = imageType\<rparr>;
                address = length (heap st)
            in if imageDataIndex \<noteq> -1
               then \<lparr>heap = heap st @ [newImageData],
                     ret = (ret st)[nat imageDataIndex := address]\<rparr>
               else \<lparr>heap = heap st @ [newImageData], ret = ret st @ [address]\<rparr>))"

fun extract_loop :: "environment \<Rightarrow> extraction \<Rightarrow> string list \<Rightarrow> extraction" where
  "extract_loop E st [] = st"
| "extract_loop E st (currentImage # wholeImages) =
     extract_loop E (extract_step E st currentImage) wholeImages"

definition extractFromRtf :: "environment \<Rightarrow> string \<Rightarrow> extraction" where
  "extractFromRtf E rtfContent =
     (let rtfContent' =
            removeGroups E rtfContent ''(?:(?:header|footer)[lrf]?|nonshppict|shprslt)'';
          wholeImages = getGroups E rtfContent' ''pict''
      in case wholeImages of
           None \<Rightarrow> \<lparr>heap = [], ret = []\<rparr>
         | Some groups \<Rightarrow> extract_loop E \<lparr>heap = [], ret = []\<rparr> groups)"

section \<open>\<^verbatim>\<open>createSrcWithBase64\<close>\<close>

text \<open>
  \<^verbatim>\<open>convertHexStringToBytes\<close> reads the length of its argument, which throws a
  \<open>TypeError\<close> on \<^verbatim>\<open>null\<close>.
\<close>

definition createSrcWithBase64 :: "environment \<Rightarrow> ImageData \<Rightarrow> js_error + string option" where
  "createSrcWithBase64 E img =
     (let isSupportedType = (array_indexOf supportedImageTypes (\<lambda>t. t = type img) \<noteq> -1)
      in if \<not> isSupportedType then Inr None
         else if type img = [] then Inr None
         else
           (case hex img of
              None \<Rightarrow> Inl TypeError
            | Some h \<Rightarrow>
                Inr (Some (''data:'' @ type img @ '';base64,''
                           @ convertBytesToBase64 E (convertHexStringToBytes E h)))))"

section \<open>\<^verbatim>\<open>extractTagsFromHtml\<close>\<close>

text \<open>A match leaves a suffix of the text; one that reads a character leaves less.\<close>

lemma rmatch_length: "rmatch re s = Some (ms, e) \<Longrightarrow> length e \<le> length s"
proof (induction re s arbitrary: ms e rule: rmatch.induct)
  case (2 r s)
  then show ?case by (auto split: option.splits)
next
  case (6 a r c cs)
  then show ?case by (fastforce split: if_splits option.splits)
next
  case (8 a r c cs)
  then show ?case by (fastforce split: if_splits option.splits)
next
  case (10 a r c cs)
  then show ?case by (fastforce split: if_splits)
qed (auto split: if_splits)

lemma rmatch_One_shorter: "rmatch (One a # r) s = Some (ms, e) \<Longrightarrow> length e < length s"
  by (cases s) (auto split: if_splits dest: rmatch_length)

lemma rexec_One_shorter: "rexec (One a # r) s = Some (i, ms, e) \<Longrightarrow> length e < length s"
proof (induction s arbitrary: i ms e)
  case Nil
  then show ?case by simp
next
  case (Cons c cs)
  show ?case
  proof (cases "rmatch (One a # r) (c # cs)")
    case None
    with Cons.prems obtain j where "rexec (One a # r) cs = Some (j, ms, e)"
      by (auto split: option.splits)
    then have "length e < length cs" by (rule Cons.IH)
    then show ?thesis by simp
  next
    case (Some m)
    with Cons.prems have "rmatch (One a # r) (c # cs) = Some (ms, e)"
      by (auto split: option.splits)
    then show ?thesis by (rule rmatch_One_shorter)
  qed
qed

text \<open>
  The expression \<^verbatim>\<open>/<img[^>]+src="([^"]+)[^>]+/g\<close>. With the \<^verbatim>\<open>g\<close> flag each
  \<^verbatim>\<open>exec\<close> searches from where the last match ended; the expression looks neither
  behind nor at the ends of the text, so the search is the search in the text that is
  left, which is the first argument of the loop.
\<close>

definition regexp :: regex where
  "regexp =
     lits ''<img'' @ [Plus (NoneOf ''>'')] @ lits (''src='' @ [dq])
     @ [Mark, Plus (NoneOf [dq]), Mark, Plus (NoneOf ''>'')]"

function extractTags_loop :: "string \<Rightarrow> string list \<Rightarrow> string list" where
  "extractTags_loop html tags =
     (case rexec regexp html of
        None \<Rightarrow> tags
      | Some (i, ms, rest) \<Rightarrow> extractTags_loop rest (tags @ [group1 ms]))"
  by pat_completeness auto
termination
  by (relation "measure (\<lambda>(html, tags). length html)")
     (auto simp: regexp_def lits_def dest: rexec_One_shorter)

declare extractTags_loop.simps [simp del]

definition extractTagsFromHtml :: "string \<Rightarrow> string list" where
  "extractTagsFromHtml html = extractTags_loop html []"

section \<open>\<^verbatim>\<open>handleRtfImages\<close>\<close>

text \<open>\<^verbatim>\<open>imgTags[ i ].replace( /\\/g, '\\\\' )\<close>: every backslash is doubled.\<close>

definition escapeBackslashes :: "string \<Rightarrow> string" where
  "escapeBackslashes s = concat (map (\<lambda>c. if c = bs then [bs, bs] else [c]) s)"

text \<open>
  The pattern text \<^verbatim>\<open>(<img [^>]*src=["']?)\<close>, and the part of the expression
  syntax read in the escaped path that follows it: two backslashes are a backslash, a
  dot is any character but a line end, a character that the syntax gives no meaning
  is itself. Any other path is outside of what is read (\<open>None\<close>).
\<close>

definition imgPrefix :: regex where
  "imgPrefix =
     [Mark] @ lits ''<img '' @ [Star (NoneOf ''>'')] @ lits ''src=''
     @ [Opt (OneOf [dq, sq]), Mark]"

definition imgPrefixSource :: string where
  "imgPrefixSource = ''(<img [^>]*src=['' @ [dq, sq] @ '']?)''"

fun compile_path :: "string \<Rightarrow> regex option" where
  "compile_path [] = Some []"
| "compile_path (c # r) =
     (if c = bs then
        (case r of
           [] \<Rightarrow> None
         | d # r' \<Rightarrow>
             if d = bs then map_option ((#) (One (Lit bs))) (compile_path r') else None)
      else if c = CHR ''.'' then map_option ((#) (One AnyChar)) (compile_path r)
      else if c \<in> set ''^$*+?()[]{}|'' then None
      else map_option ((#) (One (Lit c))) (compile_path r))"

definition replaceSrc :: "other_patterns \<Rightarrow> string \<Rightarrow> string \<Rightarrow> string \<Rightarrow> js_error + string" where
  "replaceSrc replaceOther html imgTag newSrcValue =
     (let escapedPath = escapeBackslashes imgTag
      in case compile_path escapedPath of
           Some path \<Rightarrow> Inr (replace_first (imgPrefix @ path) (''$1'' @ newSrcValue) html)
         | None \<Rightarrow> replaceOther (imgPrefixSource @ escapedPath) (''$1'' @ newSrcValue) html)"

text \<open>
  The loop over \<^verbatim>\<open>imgTags\<close>, from index \<open>i\<close>, with the reports made so far and
  the current \<^verbatim>\<open>html\<close>. An exception ends it; the reports made before stay made.
\<close>

function rtf_loop ::
  "other_patterns \<Rightarrow> string list \<Rightarrow> ImageData list \<Rightarrow> string option list \<Rightarrow> nat
   \<Rightarrow> report list \<Rightarrow> string \<Rightarrow> report list \<times> (js_error + string)" where
  "rtf_loop replaceOther imgTags hexImages newSrcValues i log html =
     (if i < length imgTags then
        (if str_indexOf (imgTags ! i) ''file://'' = 0 then
           (case (if truthy (newSrcValues ! i) then newSrcValues ! i else None) of
              None \<Rightarrow>
                rtf_loop replaceOther imgTags hexImages newSrcValues (i + 1)
                  (log @ [UnsupportedImage (type (hexImages ! i)) i]) html
            | Some newSrcValue \<Rightarrow>
                (case replaceSrc replaceOther html (imgTags ! i) newSrcValue of
                   Inl e \<Rightarrow> (log, Inl e)
                 | Inr html' \<Rightarrow>
                     rtf_loop replaceOther imgTags hexImages newSrcValues (i + 1) log html'))
         else rtf_loop replaceOther imgTags hexImages newSrcValues (i + 1) log html)
      else (log, Inr html))"
  by pat_completeness auto
termination
  by (relation
       "measure (\<lambda>(replaceOther, imgTags, hexImages, newSrcValues, i, log, html).
          length imgTags - i)")
     auto

declare rtf_loop.simps [simp del]

definition handleRtfImages ::
  "other_patterns \<Rightarrow> environment \<Rightarrow> string \<Rightarrow> string \<Rightarrow> string list
   \<Rightarrow> report list \<times> (js_error + string)" where
  "handleRtfImages replaceOther E html rtf imgTags =
     (let hexImages = images (extractFromRtf E rtf)
      in if length hexImages = 0 then ([], Inr html)
         else
           (case array_map hexImages (\<lambda>img. createSrcWithBase64 E img) of
              Inl e \<Rightarrow> ([], Inl e)
            | Inr newSrcValues \<Rightarrow>
                if length imgTags \<noteq> length newSrcValues
                then ([FailedImageExtraction (length hexImages) (length imgTags)], Inr html)
                else rtf_loop replaceOther imgTags hexImages newSrcValues 0 [] html))"

definition handleBlobImages :: "editor \<Rightarrow> string \<Rightarrow> string list \<Rightarrow> string" where
  "handleBlobImages ed html imgTags = html"

section \<open>The filter \<^verbatim>\<open>CKEDITOR.pasteFilters.image\<close>\<close>

text \<open>
  \<open>rtf\<close> is a string, or \<open>None\<close> when the caller passes none; the empty string is
  falsy as well.
\<close>

definition pasteFilters_image ::
  "other_patterns \<Rightarrow> environment \<Rightarrow> string \<Rightarrow> editor \<Rightarrow> string option
   \<Rightarrow> report list \<times> (js_error + string)" where
  "pasteFilters_image replaceOther E html ed rtf =
     (if (case activeFilter ed of None \<Rightarrow> False | Some check \<Rightarrow> \<not> check ''img[src]'')
      then ([], Inr html)
      else
        (let imgTags = extractTagsFromHtml html
         in if length imgTags = 0 then ([], Inr html)
            else
              (case rtf of
                 Some r \<Rightarrow>
                   if r \<noteq> [] then handleRtfImages replaceOther E html r imgTags
                   else ([], Inr (handleBlobImages ed html imgTags))
               | None \<Rightarrow> ([], Inr (handleBlobImages ed html imgTags)))))"

section \<open>An environment to run the filter in\<close>

text \<open>
  Modelled from the spec: the RTF group primitives and the byte encoders are not in the
  source file. The spec gives them as: \<^verbatim>\<open>removeGroups\<close> "deletes every matched
  balanced-brace group"; \<^verbatim>\<open>getGroups\<close> gives the content "for every balanced-brace
  group starting with that control word", in order; \<^verbatim>\<open>extractGroupContent\<close>
  "strips the enclosing group's control-word header"; \<^verbatim>\<open>hexToBytes\<close> and
  \<^verbatim>\<open>bytesToBase64\<close> are the usual encodings. The definitions below follow these
  words. They are used to run the model on concrete clipboard texts only: every general
  statement below holds for all environments.
\<close>

text \<open>
  \<open>group_end d s\<close> splits \<open>s\<close> after the closing brace that ends the group open at
  depth \<open>d\<close>.
\<close>

fun group_end :: "nat \<Rightarrow> string \<Rightarrow> string \<times> string" where
  "group_end d [] = ([], [])"
| "group_end d (c # cs) =
     (if c = CHR ''}'' \<and> d \<le> 1 then ([c], cs)
      else
        (case group_end (if c = CHR ''{'' then d + 1 else if c = CHR ''}'' then d - 1 else d) cs of
           (g, rest) \<Rightarrow> (c # g, rest)))"

lemma group_end_length: "group_end d s = (g, rest) \<Longrightarrow> length rest \<le> length s"
proof (induction d s arbitrary: g rest rule: group_end.induct)
  case (1 d)
  then show ?case by simp
next
  case (2 d c cs)
  show ?case
  proof (cases "c = CHR ''}'' \<and> d \<le> 1")
    case True
    with "2.prems" show ?thesis by auto
  next
    case False
    obtain g' rest' where
      e: "group_end (if c = CHR ''{'' then d + 1 else if c = CHR ''}'' then d - 1 else d) cs
            = (g', rest')"
      by (cases "group_end (if c = CHR ''{'' then d + 1 else if c = CHR ''}'' then d - 1 else d) cs")
    from "2.IH" [OF False e] have "length rest' \<le> length cs" .
    moreover from "2.prems" False e have "rest = rest'"
      by (cases "c = CHR ''}''") auto
    ultimately show ?thesis by simp
  qed
qed

lemma group_end_shorter: "(g, rest) = group_end d (c # cs) \<Longrightarrow> length rest < Suc (length cs)"
proof -
  assume a: "(g, rest) = group_end d (c # cs)"
  show ?thesis
  proof (cases "c = CHR ''}'' \<and> d \<le> 1")
    case True
    with a show ?thesis by auto
  next
    case False
    obtain g' rest' where
      e: "group_end (if c = CHR ''{'' then d + 1 else if c = CHR ''}'' then d - 1 else d) cs
            = (g', rest')"
      by (cases "group_end (if c = CHR ''{'' then d + 1 else if c = CHR ''}'' then d - 1 else d) cs")
    then have "length rest' \<le> length cs" by (rule group_end_length)
    moreover from a False e have "rest = rest'"
      by (cases "c = CHR ''}''") auto
    ultimately show ?thesis by simp
  qed
qed

function groups_from :: "string \<Rightarrow> string \<Rightarrow> string list" where
  "groups_from start [] = []"
| "groups_from start (c # cs) =
     (if take (length start) (c # cs) = start
      then (case group_end 0 (c # cs) of (g, rest) \<Rightarrow> g # groups_from start rest)
      else groups_from start cs)"
  by pat_completeness auto
termination
  by (relation "measure (\<lambda>(start, s). length s)")
     (auto simp del: group_end.simps dest: group_end_shorter)

function remove_from :: "string list \<Rightarrow> string \<Rightarrow> string" where
  "remove_from starts [] = []"
| "remove_from starts (c # cs) =
     (if \<exists>start \<in> set starts. take (length start) (c # cs) = start
      then (case group_end 0 (c # cs) of (g, rest) \<Rightarrow> remove_from starts rest)
      else c # remove_from starts cs)"
  by pat_completeness auto
termination
  by (relation "measure (\<lambda>(starts, s). length s)")
     (auto simp del: group_end.simps dest: group_end_shorter)

text \<open>
  What is left of a group without its braces, its control words (each with the blank
  that ends it) and its inner groups.
\<close>

fun group_content :: "nat \<Rightarrow> bool \<Rightarrow> string \<Rightarrow> string" where
  "group_content d w [] = []"
| "group_content d w (c # cs) =
     (if c = CHR ''{'' then group_content (d + 1) False cs
      else if c = CHR ''}'' then group_content (d - 1) False cs
      else if 1 < d then group_content d False cs
      else if c = bs then group_content d True cs
      else if w \<and> (atom_ok WordChar c \<or> c = CHR ''-'') then group_content d True cs
      else if w \<and> atom_ok Space c then group_content d False cs
      else c # group_content d False cs)"

fun hexDigit :: "char \<Rightarrow> nat" where
  "hexDigit c =
     (if atom_ok Digit c then of_char c - 48
      else if c \<in> set ''abcdef'' then of_char c - 87
      else of_char c - 55)"

fun hexToBytes :: "string \<Rightarrow> nat list" where
  "hexToBytes (a # b # r) = (16 * hexDigit a + hexDigit b) # hexToBytes r"
| "hexToBytes r = map hexDigit r"

definition base64Digit :: "nat \<Rightarrow> char" where
  "base64Digit n =
     ''ABCDEFGHIJKLMNOPQRSTUVWXYZabcdefghijklmnopqrstuvwxyz0123456789+/'' ! n"

fun bytesToBase64 :: "nat list \<Rightarrow> string" where
  "bytesToBase64 [] = []"
| "bytesToBase64 [a] = [base64Digit (a div 4), base64Digit (a mod 4 * 16), CHR ''='', CHR ''='']"
| "bytesToBase64 [a, b] =
     [base64Digit (a div 4), base64Digit (a mod 4 * 16 + b div 16),
      base64Digit (b mod 16 * 4), CHR ''='']"
| "bytesToBase64 (a # b # c # r) =
     [base64Digit (a div 4), base64Digit (a mod 4 * 16 + b div 16),
      base64Digit (b mod 16 * 4 + c div 64), base64Digit (c mod 64)] @ bytesToBase64 r"

definition plain_env :: environment where
  "plain_env =
     \<lparr>removeGroups = (\<lambda>rtf pattern.
        if pattern = ''(?:(?:header|footer)[lrf]?|nonshppict|shprslt)''
        then remove_from
               (map (\<lambda>w. CHR ''{'' # bs # w) [''header'', ''footer'', ''nonshppict'', ''shprslt''])
               rtf
        else rtf),
      getGroups = (\<lambda>rtf word. Some (groups_from (CHR ''{'' # bs # word) rtf)),
      extractGroupContent = group_content 0 False,
      convertHexStringToBytes = hexToBytes,
      convertBytesToBase64 = bytesToBase64\<rparr>"

text \<open>
  Clipboard texts to run the filter on: a picture group
  \<^verbatim>\<open>{\pict...{\*\blipuid ...}...}\<close> with its control words, identity and payload, an
  RTF document of groups, and an \<^verbatim>\<open><img src="...">\<close> tag.
\<close>

definition pictGroup :: "string \<Rightarrow> string \<Rightarrow> string \<Rightarrow> string" where
  "pictGroup controlWords uid payload =
     ''{'' @ [bs] @ ''pict'' @ controlWords
     @ ''{'' @ [bs] @ ''*'' @ [bs] @ ''blipuid '' @ uid @ ''}'' @ payload @ ''}''"

definition rtfText :: "string list \<Rightarrow> string" where
  "rtfText groups = ''{'' @ [bs] @ ''rtf1 '' @ concat groups @ ''}''"

definition imgTag :: "string \<Rightarrow> string" where
  "imgTag src = ''<img src='' @ [dq] @ src @ [dq] @ ''>''"

abbreviation png :: string where "png \<equiv> bs # ''pngblip''"
abbreviation jpeg :: string where "jpeg \<equiv> bs # ''jpegblip''"
abbreviation emf :: string where "emf \<equiv> bs # ''emfblip''"

section \<open>The invariant of the extraction\<close>

text \<open>
  Every reference in \<open>ret\<close> is the address of an object, and an object has a payload
  exactly when its type is a supported one.
\<close>

definition consistent :: "extraction \<Rightarrow> bool" where
  "consistent st \<longleftrightarrow>
     list_all (\<lambda>a. a < length (heap st)) (ret st)
     \<and> list_all (\<lambda>img. hex img \<noteq> None \<longleftrightarrow> type img \<in> set supportedImageTypes) (heap st)"

section \<open>What the expressions match\<close>

text \<open>
  A sequence of literal characters matches exactly where the text holds them, and a
  search succeeds when some suffix of the text matches.
\<close>

lemma rmatch_lits:
  "rmatch (lits w @ r) s = (if take (length w) s = w then rmatch r (drop (length w) s) else None)"
proof (induction w arbitrary: s)
  case Nil
  then show ?case by (simp add: lits_def)
next
  case (Cons a w)
  have IH: "rmatch (lits w @ r) t = (if take (length w) t = w then rmatch r (drop (length w) t) else None)" for t
    using Cons.IH by simp
  show ?case
  proof (cases s)
    case Nil
    then show ?thesis by (simp add: lits_def)
  next
    case (Cons c cs)
    have "rmatch (lits (a # w) @ r) (c # cs) = (if c = a then rmatch (lits w @ r) cs else None)"
      by (simp add: lits_def)
    with Cons IH [of cs] show ?thesis by auto
  qed
qed

lemma rexec_iff: "rexec re s \<noteq> None \<longleftrightarrow> (\<exists>u v. s = u @ v \<and> rmatch re v \<noteq> None)"
proof (induction s)
  case Nil
  then show ?case by (auto split: option.splits)
next
  case (Cons c cs)
  show ?case
  proof (cases "rmatch re (c # cs)")
    case (Some m)
    then have "rexec re (c # cs) \<noteq> None" by (auto split: option.splits)
    moreover from Some have "\<exists>u v. c # cs = u @ v \<and> rmatch re v \<noteq> None"
      by (intro exI [of _ "[]"] exI [of _ "c # cs"]) simp
    ultimately show ?thesis by simp
  next
    case None
    then have "rexec re (c # cs) \<noteq> None \<longleftrightarrow> rexec re cs \<noteq> None"
      by (auto split: option.splits)
    also have "\<dots> \<longleftrightarrow> (\<exists>u v. cs = u @ v \<and> rmatch re v \<noteq> None)" by (rule Cons.IH)
    also have "\<dots> \<longleftrightarrow> (\<exists>u v. c # cs = u @ v \<and> rmatch re v \<noteq> None)"
    proof
      assume "\<exists>u v. cs = u @ v \<and> rmatch re v \<noteq> None"
      then obtain u v where "cs = u @ v" "rmatch re v \<noteq> None" by blast
      then have "c # cs = (c # u) @ v \<and> rmatch re v \<noteq> None" by simp
      then show "\<exists>u v. c # cs = u @ v \<and> rmatch re v \<noteq> None" by blast
    next
      assume "\<exists>u v. c # cs = u @ v \<and> rmatch re v \<noteq> None"
      then obtain u v where uv: "c # cs = u @ v" "rmatch re v \<noteq> None" by blast
      with None have "u \<noteq> []" by auto
      with uv(1) obtain u' where "u = c # u'" "cs = u' @ v" by (cases u) auto
      with uv(2) show "\<exists>u v. cs = u @ v \<and> rmatch re v \<noteq> None" by blast
    qed
    finally show ?thesis .
  qed
qed

lemma take_eq_iff: "take (length w) s = w \<longleftrightarrow> (\<exists>v. s = w @ v)"
  by (metis append_eq_conv_conj append_take_drop_id)

lemma test_lits: "regex_test (lits w) s \<longleftrightarrow> (\<exists>u v. s = u @ w @ v)"
proof -
  have "rmatch (lits w) v \<noteq> None \<longleftrightarrow> (\<exists>v'. v = w @ v')" for v
    using rmatch_lits [of w "[]" v] by (simp add: take_eq_iff)
  then show ?thesis unfolding regex_test_def rexec_iff by blast
qed

lemma test_lits_digit:
  "regex_test (lits w @ [One Digit]) s \<longleftrightarrow> (\<exists>u d v. s = u @ w @ d # v \<and> d \<in> set ''0123456789'')"
proof -
  have "rmatch (lits w @ [One Digit]) t \<noteq> None \<longleftrightarrow> (\<exists>d v. t = w @ d # v \<and> d \<in> set ''0123456789'')" for t
  proof (cases "take (length w) t = w")
    case True
    then obtain v' where t: "t = w @ v'" by (auto simp: take_eq_iff)
    show ?thesis
    proof (cases v')
      case Nil
      with t show ?thesis by (simp add: rmatch_lits)
    next
      case (Cons d v)
      with t show ?thesis by (simp add: rmatch_lits)
    qed
  next
    case False
    then have "\<not> (\<exists>v'. t = w @ v')" by (simp add: take_eq_iff)
    then have "\<not> (\<exists>d v. t = w @ d # v \<and> d \<in> set ''0123456789'')" by blast
    with False show ?thesis by (simp add: rmatch_lits)
  qed
  then show ?thesis unfolding regex_test_def rexec_iff by blast
qed

section \<open>The array helpers and the supported types\<close>

lemma array_indexOf_from_range:
  "array_indexOf_from xs p i \<noteq> -1 \<Longrightarrow> 0 \<le> i \<Longrightarrow>
     i \<le> array_indexOf_from xs p i \<and> array_indexOf_from xs p i < i + int (length xs)
     \<and> p (xs ! nat (array_indexOf_from xs p i - i))"
proof (induction xs arbitrary: i)
  case Nil
  then show ?case by simp
next
  case (Cons x xs)
  show ?case
  proof (cases "p x")
    case True
    then show ?thesis by simp
  next
    case False
    with Cons.prems have ne: "array_indexOf_from xs p (i + 1) \<noteq> -1" by simp
    from Cons.prems have "0 \<le> i + 1" by simp
    from Cons.IH [OF ne this] False Cons.prems(2) show ?thesis
      by (auto simp: nat_diff_distrib' nat_add_distrib)
  qed
qed

lemma array_indexOf_found:
  "array_indexOf xs p \<noteq> -1 \<Longrightarrow>
     0 \<le> array_indexOf xs p \<and> nat (array_indexOf xs p) < length xs
     \<and> p (xs ! nat (array_indexOf xs p))"
  using array_indexOf_from_range [of xs p 0] by (auto simp: array_indexOf_def)

lemma array_indexOf_from_none:
  "0 \<le> i \<Longrightarrow> array_indexOf_from xs p i = -1 \<longleftrightarrow> (\<forall>x \<in> set xs. \<not> p x)"
proof (induction xs arbitrary: i)
  case Nil
  then show ?case by simp
next
  case (Cons x xs)
  then show ?case by (cases "p x") auto
qed

lemma array_indexOf_none: "array_indexOf xs p = -1 \<longleftrightarrow> (\<forall>x \<in> set xs. \<not> p x)"
  by (simp add: array_indexOf_def array_indexOf_from_none)

lemma isSupportedType_iff:
  "array_indexOf supportedImageTypes (\<lambda>t. t = x) \<noteq> -1 \<longleftrightarrow> x \<in> set supportedImageTypes"
  by (auto simp: array_indexOf_none)

lemma length_images: "length (images st) = length (ret st)"
  by (simp add: images_def)

lemma getImageIndex_found:
  "getImageIndex st ident \<noteq> -1 \<Longrightarrow>
     0 \<le> getImageIndex st ident \<and> nat (getImageIndex st ident) < length (ret st)
     \<and> id' (deref st (nat (getImageIndex st ident))) = ident"
proof (cases ident)
  case None
  assume "getImageIndex st ident \<noteq> -1"
  with None show ?thesis by (simp add: getImageIndex_def)
next
  case (Some s)
  assume "getImageIndex st ident \<noteq> -1"
  with Some have "array_indexOf (images st) (\<lambda>img. id' img = Some s) \<noteq> -1"
    by (simp add: getImageIndex_def)
  from array_indexOf_found [OF this] Some show ?thesis
    by (auto simp: getImageIndex_def deref_def images_def)
qed

section \<open>The extraction keeps its invariant\<close>

text \<open>The four ways a turn of the extraction loop can end.\<close>

lemma extract_step_cases:
  "extract_step E st g = st\<lparr>ret := ret st @ [ret st ! nat (getImageIndex st (getImageId g))]\<rparr>
     \<and> getImageIndex st (getImageId g) \<noteq> -1
   \<or> extract_step E st g = st
   \<or> (\<exists>h. extract_step E st g =
         \<lparr>heap = heap st @ [\<lparr>id' = getImageId g, hex = h, type = getImageType g\<rparr>],
          ret = (ret st)[nat (getImageIndex st (getImageId g)) := length (heap st)]\<rparr>
        \<and> (h \<noteq> None \<longleftrightarrow> getImageType g \<in> set supportedImageTypes))
   \<or> (\<exists>h. extract_step E st g =
         \<lparr>heap = heap st @ [\<lparr>id' = getImageId g, hex = h, type = getImageType g\<rparr>],
          ret = ret st @ [length (heap st)]\<rparr>
        \<and> (h \<noteq> None \<longleftrightarrow> getImageType g \<in> set supportedImageTypes))"
  by (simp add: extract_step_def Let_def isSupportedType_iff)

lemma consistent_step: "consistent st \<Longrightarrow> consistent (extract_step E st g)"
proof -
  assume c: "consistent st"
  let ?k = "getImageIndex st (getImageId g)"
  from extract_step_cases [of E st g] show ?thesis
  proof (elim disjE conjE exE)
    assume e: "extract_step E st g = st\<lparr>ret := ret st @ [ret st ! nat ?k]\<rparr>" and k: "?k \<noteq> -1"
    from getImageIndex_found [OF k] have "nat ?k < length (ret st)" by simp
    then have "ret st ! nat ?k \<in> set (ret st)" by simp
    with c have "ret st ! nat ?k < length (heap st)" by (auto simp: consistent_def list_all_iff)
    with c e show ?thesis by (simp add: consistent_def)
  next
    assume "extract_step E st g = st"
    with c show ?thesis by simp
  next
    fix h
    assume e: "extract_step E st g =
         \<lparr>heap = heap st @ [\<lparr>id' = getImageId g, hex = h, type = getImageType g\<rparr>],
          ret = (ret st)[nat ?k := length (heap st)]\<rparr>"
      and h: "h \<noteq> None \<longleftrightarrow> getImageType g \<in> set supportedImageTypes"
    have "set ((ret st)[nat ?k := length (heap st)]) \<subseteq> insert (length (heap st)) (set (ret st))"
      by (rule set_update_subset_insert)
    with c have "\<forall>a \<in> set ((ret st)[nat ?k := length (heap st)]). a < Suc (length (heap st))"
      by (auto simp: consistent_def list_all_iff less_Suc_eq)
    with c e h show ?thesis by (simp add: consistent_def list_all_iff)
  next
    fix h
    assume e: "extract_step E st g =
         \<lparr>heap = heap st @ [\<lparr>id' = getImageId g, hex = h, type = getImageType g\<rparr>],
          ret = ret st @ [length (heap st)]\<rparr>"
      and h: "h \<noteq> None \<longleftrightarrow> getImageType g \<in> set supportedImageTypes"
    from c have "\<forall>a \<in> set (ret st). a < Suc (length (heap st))"
      by (auto simp: consistent_def list_all_iff less_Suc_eq)
    with c e h show ?thesis by (simp add: consistent_def list_all_iff)
  qed
qed

lemma consistent_loop: "consistent st \<Longrightarrow> consistent (extract_loop E st gs)"
  by (induction gs arbitrary: st) (auto intro: consistent_step)

lemma consistent_extractFromRtf: "consistent (extractFromRtf E rtf)"
proof -
  have "consistent \<lparr>heap = [], ret = []\<rparr>" by (simp add: consistent_def)
  then show ?thesis
    by (auto simp: extractFromRtf_def Let_def split: option.splits intro: consistent_loop)
qed

lemma consistent_images:
  "consistent st \<Longrightarrow> img \<in> set (images st) \<Longrightarrow>
     (hex img \<noteq> None \<longleftrightarrow> type img \<in> set supportedImageTypes)"
  by (auto simp: consistent_def list_all_iff images_def)

lemma createSrcWithBase64_supported:
  "type img \<in> set supportedImageTypes \<Longrightarrow> hex img = Some h \<Longrightarrow>
     createSrcWithBase64 E img =
       Inr (Some (''data:'' @ type img @ '';base64,''
                  @ convertBytesToBase64 E (convertHexStringToBytes E h)))"
proof -
  assume t: "type img \<in> set supportedImageTypes" and h: "hex img = Some h"
  from t have "array_indexOf supportedImageTypes (\<lambda>t. t = type img) \<noteq> -1"
    by (simp only: isSupportedType_iff)
  moreover from t have "type img \<noteq> []" by (auto simp: supportedImageTypes_def)
  ultimately show ?thesis using h by (simp add: createSrcWithBase64_def)
qed

lemma createSrcWithBase64_unsupported:
  "type img \<notin> set supportedImageTypes \<Longrightarrow> createSrcWithBase64 E img = Inr None"
  by (simp add: createSrcWithBase64_def Let_def isSupportedType_iff)

lemma createSrcWithBase64_consistent:
  "consistent st \<Longrightarrow> img \<in> set (images st) \<Longrightarrow> \<exists>y. createSrcWithBase64 E img = Inr y"
proof -
  assume c: "consistent st" and m: "img \<in> set (images st)"
  show ?thesis
  proof (cases "type img \<in> set supportedImageTypes")
    case True
    with consistent_images [OF c m] obtain h where "hex img = Some h" by auto
    from createSrcWithBase64_supported [OF True this] show ?thesis by blast
  next
    case False
    then show ?thesis by (simp add: createSrcWithBase64_unsupported)
  qed
qed

section \<open>The encoded list\<close>

lemma array_map_total:
  "\<forall>x \<in> set xs. \<exists>y. f x = Inr y \<Longrightarrow> \<exists>ys. array_map xs f = Inr ys \<and> length ys = length xs"
  by (induction xs) auto

lemma newSrcValues_exist:
  "\<exists>srcs. array_map (images (extractFromRtf E rtf)) (createSrcWithBase64 E) = Inr srcs
     \<and> length srcs = length (images (extractFromRtf E rtf))"
  by (rule array_map_total)
     (blast intro: createSrcWithBase64_consistent [OF consistent_extractFromRtf])

section \<open>What the quantified expressions match\<close>

text \<open>
  When an expression matches at the start of a text, in terms of the text alone: a
  mark takes nothing, an atom one character, \<^verbatim>\<open>?\<close> one character or none,
  \<^verbatim>\<open>*\<close> and \<^verbatim>\<open>+\<close> a run of characters, and the rest of the expression
  matches what is left.
\<close>

lemma rmatch_Mark_iff: "rmatch (Mark # r) s \<noteq> None \<longleftrightarrow> rmatch r s \<noteq> None"
  by (auto split: option.splits)

lemma rmatch_One_iff:
  "rmatch (One a # r) s \<noteq> None \<longleftrightarrow> (\<exists>c t. s = c # t \<and> atom_ok a c \<and> rmatch r t \<noteq> None)"
  by (cases s) auto

lemma rmatch_Opt_iff:
  "rmatch (Opt a # r) s \<noteq> None \<longleftrightarrow>
     rmatch r s \<noteq> None \<or> (\<exists>c t. s = c # t \<and> atom_ok a c \<and> rmatch r t \<noteq> None)"
  by (cases s) (auto split: option.splits)

lemma rmatch_Star_iff:
  "rmatch (Star a # r) s \<noteq> None \<longleftrightarrow>
     (\<exists>x y. s = x @ y \<and> list_all (atom_ok a) x \<and> rmatch r y \<noteq> None)"
proof (induction s)
  case Nil
  then show ?case by simp
next
  case (Cons c cs)
  show ?case
  proof (cases "atom_ok a c")
    case True
    have "rmatch (Star a # r) (c # cs) \<noteq> None \<longleftrightarrow>
        rmatch (Star a # r) cs \<noteq> None \<or> rmatch r (c # cs) \<noteq> None"
      using True by (auto split: option.splits)
    also have "\<dots> \<longleftrightarrow> (\<exists>x y. cs = x @ y \<and> list_all (atom_ok a) x \<and> rmatch r y \<noteq> None)
        \<or> rmatch r (c # cs) \<noteq> None"
      by (simp only: Cons.IH)
    also have "\<dots> \<longleftrightarrow>
        (\<exists>x y. c # cs = x @ y \<and> list_all (atom_ok a) x \<and> rmatch r y \<noteq> None)"
    proof
      assume "(\<exists>x y. cs = x @ y \<and> list_all (atom_ok a) x \<and> rmatch r y \<noteq> None)
          \<or> rmatch r (c # cs) \<noteq> None"
      then show "\<exists>x y. c # cs = x @ y \<and> list_all (atom_ok a) x \<and> rmatch r y \<noteq> None"
      proof
        assume "\<exists>x y. cs = x @ y \<and> list_all (atom_ok a) x \<and> rmatch r y \<noteq> None"
        then obtain x y where "cs = x @ y" "list_all (atom_ok a) x" "rmatch r y \<noteq> None"
          by blast
        with True have "c # cs = (c # x) @ y \<and> list_all (atom_ok a) (c # x) \<and> rmatch r y \<noteq> None"
          by simp
        then show ?thesis by blast
      next
        assume "rmatch r (c # cs) \<noteq> None"
        then have "c # cs = [] @ (c # cs) \<and> list_all (atom_ok a) [] \<and> rmatch r (c # cs) \<noteq> None"
          by simp
        then show ?thesis by blast
      qed
    next
      assume "\<exists>x y. c # cs = x @ y \<and> list_all (atom_ok a) x \<and> rmatch r y \<noteq> None"
      then obtain x y where xy: "c # cs = x @ y" "list_all (atom_ok a) x" "rmatch r y \<noteq> None"
        by blast
      show "(\<exists>x y. cs = x @ y \<and> list_all (atom_ok a) x \<and> rmatch r y \<noteq> None)
          \<or> rmatch r (c # cs) \<noteq> None"
      proof (cases x)
        case Nil
        with xy show ?thesis by simp
      next
        case (Cons d x')
        with xy have "cs = x' @ y \<and> list_all (atom_ok a) x' \<and> rmatch r y \<noteq> None" by simp
        then show ?thesis by blast
      qed
    qed
    finally show ?thesis .
  next
    case False
    have "rmatch (Star a # r) (c # cs) \<noteq> None \<longleftrightarrow> rmatch r (c # cs) \<noteq> None"
      using False by simp
    also have "\<dots> \<longleftrightarrow>
        (\<exists>x y. c # cs = x @ y \<and> list_all (atom_ok a) x \<and> rmatch r y \<noteq> None)"
    proof
      assume "rmatch r (c # cs) \<noteq> None"
      then have "c # cs = [] @ (c # cs) \<and> list_all (atom_ok a) [] \<and> rmatch r (c # cs) \<noteq> None"
        by simp
      then show "\<exists>x y. c # cs = x @ y \<and> list_all (atom_ok a) x \<and> rmatch r y \<noteq> None"
        by blast
    next
      assume "\<exists>x y. c # cs = x @ y \<and> list_all (atom_ok a) x \<and> rmatch r y \<noteq> None"
      then obtain x y where xy: "c # cs = x @ y" "list_all (atom_ok a) x" "rmatch r y \<noteq> None"
        by blast
      with False have "x = []" by (cases x) auto
      with xy show "rmatch r (c # cs) \<noteq> None" by simp
    qed
    finally show ?thesis .
  qed
qed

lemma rmatch_Plus_iff:
  "rmatch (Plus a # r) s \<noteq> None \<longleftrightarrow>
     (\<exists>x y. s = x @ y \<and> x \<noteq> [] \<and> list_all (atom_ok a) x \<and> rmatch r y \<noteq> None)"
proof (cases s)
  case Nil
  then show ?thesis by simp
next
  case (Cons c cs)
  show ?thesis
  proof (cases "atom_ok a c")
    case True
    have "rmatch (Plus a # r) s = rmatch (Star a # r) cs"
      using True Cons by simp
    then have "rmatch (Plus a # r) s \<noteq> None \<longleftrightarrow>
        (\<exists>x y. cs = x @ y \<and> list_all (atom_ok a) x \<and> rmatch r y \<noteq> None)"
      by (simp only: rmatch_Star_iff)
    also have "\<dots> \<longleftrightarrow>
        (\<exists>x y. s = x @ y \<and> x \<noteq> [] \<and> list_all (atom_ok a) x \<and> rmatch r y \<noteq> None)"
    proof
      assume "\<exists>x y. cs = x @ y \<and> list_all (atom_ok a) x \<and> rmatch r y \<noteq> None"
      then obtain x y where "cs = x @ y" "list_all (atom_ok a) x" "rmatch r y \<noteq> None" by blast
      with True Cons have "s = (c # x) @ y \<and> c # x \<noteq> [] \<and> list_all (atom_ok a) (c # x)
          \<and> rmatch r y \<noteq> None"
        by simp
      then show "\<exists>x y. s = x @ y \<and> x \<noteq> [] \<and> list_all (atom_ok a) x \<and> rmatch r y \<noteq> None"
        by blast
    next
      assume "\<exists>x y. s = x @ y \<and> x \<noteq> [] \<and> list_all (atom_ok a) x \<and> rmatch r y \<noteq> None"
      then obtain x y where xy: "s = x @ y" "x \<noteq> []" "list_all (atom_ok a) x"
        "rmatch r y \<noteq> None" by blast
      then obtain d x' where "x = d # x'" by (cases x) auto
      with xy Cons have "cs = x' @ y \<and> list_all (atom_ok a) x' \<and> rmatch r y \<noteq> None" by simp
      then show "\<exists>x y. cs = x @ y \<and> list_all (atom_ok a) x \<and> rmatch r y \<noteq> None" by blast
    qed
    finally show ?thesis .
  next
    case False
    have "\<not> (\<exists>x y. s = x @ y \<and> x \<noteq> [] \<and> list_all (atom_ok a) x \<and> rmatch r y \<noteq> None)"
    proof
      assume "\<exists>x y. s = x @ y \<and> x \<noteq> [] \<and> list_all (atom_ok a) x \<and> rmatch r y \<noteq> None"
      then obtain x y where xy: "s = x @ y" "x \<noteq> []" "list_all (atom_ok a) x" by blast
      then obtain d x' where "x = d # x'" by (cases x) auto
      with xy Cons False show False by simp
    qed
    with False Cons show ?thesis by simp
  qed
qed

lemma rmatch_lits_iff:
  "rmatch (lits w @ r) s \<noteq> None \<longleftrightarrow> (\<exists>t. s = w @ t \<and> rmatch r t \<noteq> None)"
proof (cases "take (length w) s = w")
  case True
  then obtain t where t: "s = w @ t" by (auto simp: take_eq_iff)
  then show ?thesis by (simp add: rmatch_lits)
next
  case False
  then have "\<not> (\<exists>t. s = w @ t)" by (simp add: take_eq_iff)
  with False show ?thesis by (auto simp: rmatch_lits)
qed

lemma rmatch_Nil_iff: "rmatch [] s \<noteq> None"
  by simp

section \<open>What the scanner finds\<close>

text \<open>
  The expression of the scanner matches the texts made of \<^verbatim>\<open><img\<close>, one or more
  characters other than \<^verbatim>\<open>>\<close>, \<^verbatim>\<open>src="\<close>, one or more characters other than
  the double quote, and one or more characters other than \<^verbatim>\<open>>\<close>, followed by
  anything; the scanner returns no source exactly for the html that holds no such text.
\<close>

lemma none_of_one: "list_all (atom_ok (NoneOf [c])) x \<longleftrightarrow> c \<notin> set x"
  by (auto simp: list_all_iff)

lemma rmatch_Plus_none_of:
  "rmatch (Plus (NoneOf [c]) # r) s \<noteq> None \<longleftrightarrow>
     (\<exists>x y. s = x @ y \<and> x \<noteq> [] \<and> c \<notin> set x \<and> rmatch r y \<noteq> None)"
  by (simp only: rmatch_Plus_iff none_of_one)

lemma rmatch_regexp_iff:
  "rmatch regexp t \<noteq> None \<longleftrightarrow>
     (\<exists>a v b w. t = ''<img'' @ a @ (''src='' @ [dq]) @ v @ b @ w
        \<and> a \<noteq> [] \<and> CHR ''>'' \<notin> set a
        \<and> v \<noteq> [] \<and> dq \<notin> set v
        \<and> b \<noteq> [] \<and> CHR ''>'' \<notin> set b)"
proof -
  let ?r4 = "[Plus (NoneOf ''>'')]"
  let ?r3 = "Mark # Plus (NoneOf [dq]) # Mark # ?r4"
  let ?r2 = "lits (''src='' @ [dq]) @ ?r3"
  let ?r1 = "Plus (NoneOf ''>'') # ?r2"
  have re: "regexp = lits ''<img'' @ ?r1"
    by (simp only: regexp_def append_Cons append_Nil)
  have m4: "rmatch ?r4 s \<noteq> None \<longleftrightarrow> (\<exists>b w. s = b @ w \<and> b \<noteq> [] \<and> CHR ''>'' \<notin> set b)" for s
    by (simp only: rmatch_Plus_none_of rmatch_Nil_iff simp_thms)
  have m3: "rmatch ?r3 s \<noteq> None \<longleftrightarrow>
      (\<exists>v y. s = v @ y \<and> v \<noteq> [] \<and> dq \<notin> set v \<and> rmatch ?r4 y \<noteq> None)" for s
    by (simp only: rmatch_Mark_iff rmatch_Plus_none_of)
  have m2: "rmatch ?r2 s \<noteq> None \<longleftrightarrow> (\<exists>y. s = (''src='' @ [dq]) @ y \<and> rmatch ?r3 y \<noteq> None)" for s
    by (rule rmatch_lits_iff)
  have m1: "rmatch ?r1 s \<noteq> None \<longleftrightarrow>
      (\<exists>a y. s = a @ y \<and> a \<noteq> [] \<and> CHR ''>'' \<notin> set a \<and> rmatch ?r2 y \<noteq> None)" for s
    by (rule rmatch_Plus_none_of)
  have m0: "rmatch regexp s \<noteq> None \<longleftrightarrow> (\<exists>y. s = ''<img'' @ y \<and> rmatch ?r1 y \<noteq> None)" for s
    unfolding re by (rule rmatch_lits_iff)
  show ?thesis
  proof
    assume "rmatch regexp t \<noteq> None"
    then obtain y0 where y0: "t = ''<img'' @ y0" "rmatch ?r1 y0 \<noteq> None"
      unfolding m0 by blast
    from y0(2) obtain a y1 where y1: "y0 = a @ y1" "a \<noteq> []" "CHR ''>'' \<notin> set a"
      "rmatch ?r2 y1 \<noteq> None"
      unfolding m1 by blast
    from y1(4) obtain y2 where y2: "y1 = (''src='' @ [dq]) @ y2" "rmatch ?r3 y2 \<noteq> None"
      unfolding m2 by blast
    from y2(2) obtain v y3 where y3: "y2 = v @ y3" "v \<noteq> []" "dq \<notin> set v"
      "rmatch ?r4 y3 \<noteq> None"
      unfolding m3 by blast
    from y3(4) obtain b w where y4: "y3 = b @ w" "b \<noteq> []" "CHR ''>'' \<notin> set b"
      unfolding m4 by blast
    from y0(1) y1(1) y2(1) y3(1) y4(1)
    have "t = ''<img'' @ a @ (''src='' @ [dq]) @ v @ b @ w" by (simp only: append_assoc)
    with y1(2,3) y3(2,3) y4(2,3) show "\<exists>a v b w. t = ''<img'' @ a @ (''src='' @ [dq]) @ v @ b @ w
        \<and> a \<noteq> [] \<and> CHR ''>'' \<notin> set a \<and> v \<noteq> [] \<and> dq \<notin> set v \<and> b \<noteq> [] \<and> CHR ''>'' \<notin> set b"
      by blast
  next
    assume "\<exists>a v b w. t = ''<img'' @ a @ (''src='' @ [dq]) @ v @ b @ w
        \<and> a \<noteq> [] \<and> CHR ''>'' \<notin> set a \<and> v \<noteq> [] \<and> dq \<notin> set v \<and> b \<noteq> [] \<and> CHR ''>'' \<notin> set b"
    then obtain a v b w where t: "t = ''<img'' @ a @ (''src='' @ [dq]) @ v @ b @ w"
      and c: "a \<noteq> []" "CHR ''>'' \<notin> set a" "v \<noteq> []" "dq \<notin> set v" "b \<noteq> []" "CHR ''>'' \<notin> set b"
      by blast
    from c(5,6) have "rmatch ?r4 (b @ w) \<noteq> None" unfolding m4 by blast
    with c(3,4) have "rmatch ?r3 (v @ b @ w) \<noteq> None" unfolding m3 by blast
    then have "rmatch ?r2 ((''src='' @ [dq]) @ v @ b @ w) \<noteq> None" unfolding m2 by blast
    with c(1,2) have "rmatch ?r1 (a @ (''src='' @ [dq]) @ v @ b @ w) \<noteq> None"
      unfolding m1 by blast
    then have "rmatch regexp (''<img'' @ a @ (''src='' @ [dq]) @ v @ b @ w) \<noteq> None"
      unfolding m0 by blast
    with t show "rmatch regexp t \<noteq> None" by simp
  qed
qed

lemma regexp_test_iff:
  "regex_test regexp html \<longleftrightarrow>
     (\<exists>u a v b w. html = u @ ''<img'' @ a @ (''src='' @ [dq]) @ v @ b @ w
        \<and> a \<noteq> [] \<and> CHR ''>'' \<notin> set a
        \<and> v \<noteq> [] \<and> dq \<notin> set v
        \<and> b \<noteq> [] \<and> CHR ''>'' \<notin> set b)"
  unfolding regex_test_def rexec_iff rmatch_regexp_iff by blast

lemma regexp_shorter: "rexec regexp html = Some (i, ms, rest) \<Longrightarrow> length rest < length html"
  by (auto simp: regexp_def lits_def dest: rexec_One_shorter)

lemma extractTags_loop_acc: "extractTags_loop html tags = tags @ extractTags_loop html []"
proof (induction "length html" arbitrary: html tags rule: less_induct)
  case less
  show ?case
  proof (cases "rexec regexp html")
    case None
    then show ?thesis by (simp add: extractTags_loop.simps)
  next
    case (Some m)
    obtain i ms rest where m: "m = (i, ms, rest)" by (cases m)
    with Some have shorter: "length rest < length html" by (auto dest: regexp_shorter)
    have "extractTags_loop html tags = extractTags_loop rest (tags @ [group1 ms])"
      using Some m by (subst extractTags_loop.simps) simp
    also have "\<dots> = (tags @ [group1 ms]) @ extractTags_loop rest []"
      by (rule less [OF shorter])
    also have "\<dots> = tags @ extractTags_loop rest ([] @ [group1 ms])"
      using less [OF shorter, of "[] @ [group1 ms]"] by simp
    also have "extractTags_loop rest ([] @ [group1 ms]) = extractTags_loop html []"
      using Some m by (subst (2) extractTags_loop.simps) simp
    finally show ?thesis .
  qed
qed

lemma extractTagsFromHtml_Nil_iff:
  "extractTagsFromHtml html = [] \<longleftrightarrow>
     \<not> (\<exists>u a v b w. html = u @ ''<img'' @ a @ (''src='' @ [dq]) @ v @ b @ w
          \<and> a \<noteq> [] \<and> CHR ''>'' \<notin> set a
          \<and> v \<noteq> [] \<and> dq \<notin> set v
          \<and> b \<noteq> [] \<and> CHR ''>'' \<notin> set b)"
proof -
  have "extractTagsFromHtml html = [] \<longleftrightarrow> \<not> regex_test regexp html"
  proof (cases "rexec regexp html")
    case None
    then show ?thesis
      by (simp add: extractTagsFromHtml_def regex_test_def extractTags_loop.simps)
  next
    case (Some m)
    obtain i ms rest where m: "m = (i, ms, rest)" by (cases m)
    have "extractTags_loop html [] = extractTags_loop rest ([] @ [group1 ms])"
      using Some m by (subst extractTags_loop.simps) simp
    also have "\<dots> = ([] @ [group1 ms]) @ extractTags_loop rest []"
      by (rule extractTags_loop_acc)
    finally have "extractTagsFromHtml html \<noteq> []" by (simp add: extractTagsFromHtml_def)
    with Some show ?thesis by (simp add: regex_test_def)
  qed
  then show ?thesis by (simp only: regexp_test_iff)
qed

section \<open>What the substitution matches\<close>

text \<open>
  The pattern of the substitution for a path matches the texts made of
  \<^verbatim>\<open><img \<close>, characters other than \<^verbatim>\<open>>\<close>, \<^verbatim>\<open>src=\<close>, at most one
  quote character, and a match of the path. For a path without characters of the
  expression syntax the substitution is a replacement of the first such text, and it
  leaves an html without such a text as it is.
\<close>

lemma rmatch_Star_none_of:
  "rmatch (Star (NoneOf [c]) # r) s \<noteq> None \<longleftrightarrow>
     (\<exists>x y. s = x @ y \<and> c \<notin> set x \<and> rmatch r y \<noteq> None)"
  by (simp only: rmatch_Star_iff none_of_one)

lemma rmatch_Opt_one_of:
  "rmatch (Opt (OneOf [a, b]) # r) s \<noteq> None \<longleftrightarrow>
     (\<exists>q y. s = q @ y \<and> (q = [] \<or> q = [a] \<or> q = [b]) \<and> rmatch r y \<noteq> None)"
proof
  assume "rmatch (Opt (OneOf [a, b]) # r) s \<noteq> None"
  then have "rmatch r s \<noteq> None
      \<or> (\<exists>c t. s = c # t \<and> atom_ok (OneOf [a, b]) c \<and> rmatch r t \<noteq> None)"
    by (simp only: rmatch_Opt_iff)
  then show "\<exists>q y. s = q @ y \<and> (q = [] \<or> q = [a] \<or> q = [b]) \<and> rmatch r y \<noteq> None"
  proof
    assume "rmatch r s \<noteq> None"
    then have "s = [] @ s \<and> ([] = [] \<or> [] = [a] \<or> [] = [b]) \<and> rmatch r s \<noteq> None" by simp
    then show ?thesis by blast
  next
    assume "\<exists>c t. s = c # t \<and> atom_ok (OneOf [a, b]) c \<and> rmatch r t \<noteq> None"
    then obtain c t where "s = c # t" "c = a \<or> c = b" "rmatch r t \<noteq> None" by auto
    then have "s = [c] @ t \<and> ([c] = [] \<or> [c] = [a] \<or> [c] = [b]) \<and> rmatch r t \<noteq> None"
      by auto
    then show ?thesis by blast
  qed
next
  assume "\<exists>q y. s = q @ y \<and> (q = [] \<or> q = [a] \<or> q = [b]) \<and> rmatch r y \<noteq> None"
  then obtain q y where s: "s = q @ y" and q: "q = [] \<or> q = [a] \<or> q = [b]"
    and y: "rmatch r y \<noteq> None" by blast
  from q have "rmatch r s \<noteq> None
      \<or> (\<exists>c t. s = c # t \<and> atom_ok (OneOf [a, b]) c \<and> rmatch r t \<noteq> None)"
    using s y by auto
  then show "rmatch (Opt (OneOf [a, b]) # r) s \<noteq> None"
    by (simp only: rmatch_Opt_iff)
qed

lemma rmatch_imgPrefix_iff:
  "rmatch (imgPrefix @ r) t \<noteq> None \<longleftrightarrow>
     (\<exists>a q y. t = ''<img '' @ a @ ''src='' @ q @ y
        \<and> CHR ''>'' \<notin> set a \<and> (q = [] \<or> q = [dq] \<or> q = [sq]) \<and> rmatch r y \<noteq> None)"
proof -
  let ?r3 = "Opt (OneOf [dq, sq]) # Mark # r"
  let ?r2 = "lits ''src='' @ ?r3"
  let ?r1 = "Star (NoneOf ''>'') # ?r2"
  have re: "imgPrefix @ r = Mark # lits ''<img '' @ ?r1"
    by (simp only: imgPrefix_def append_Cons append_Nil append_assoc)
  have m3: "rmatch ?r3 s \<noteq> None \<longleftrightarrow>
      (\<exists>q y. s = q @ y \<and> (q = [] \<or> q = [dq] \<or> q = [sq]) \<and> rmatch r y \<noteq> None)" for s
    by (simp only: rmatch_Opt_one_of rmatch_Mark_iff)
  have m2: "rmatch ?r2 s \<noteq> None \<longleftrightarrow> (\<exists>y. s = ''src='' @ y \<and> rmatch ?r3 y \<noteq> None)" for s
    by (rule rmatch_lits_iff)
  have m1: "rmatch ?r1 s \<noteq> None \<longleftrightarrow>
      (\<exists>a y. s = a @ y \<and> CHR ''>'' \<notin> set a \<and> rmatch ?r2 y \<noteq> None)" for s
    by (rule rmatch_Star_none_of)
  have m0: "rmatch (imgPrefix @ r) s \<noteq> None \<longleftrightarrow>
      (\<exists>y. s = ''<img '' @ y \<and> rmatch ?r1 y \<noteq> None)" for s
    unfolding re by (simp only: rmatch_Mark_iff rmatch_lits_iff)
  show ?thesis
  proof
    assume "rmatch (imgPrefix @ r) t \<noteq> None"
    then obtain y0 where y0: "t = ''<img '' @ y0" "rmatch ?r1 y0 \<noteq> None"
      unfolding m0 by blast
    from y0(2) obtain a y1 where y1: "y0 = a @ y1" "CHR ''>'' \<notin> set a" "rmatch ?r2 y1 \<noteq> None"
      unfolding m1 by blast
    from y1(3) obtain y2 where y2: "y1 = ''src='' @ y2" "rmatch ?r3 y2 \<noteq> None"
      unfolding m2 by blast
    from y2(2) obtain q y where y3: "y2 = q @ y" "q = [] \<or> q = [dq] \<or> q = [sq]"
      "rmatch r y \<noteq> None"
      unfolding m3 by blast
    from y0(1) y1(1) y2(1) y3(1) have "t = ''<img '' @ a @ ''src='' @ q @ y"
      by (simp only: append_assoc)
    with y1(2) y3(2,3) show "\<exists>a q y. t = ''<img '' @ a @ ''src='' @ q @ y
        \<and> CHR ''>'' \<notin> set a \<and> (q = [] \<or> q = [dq] \<or> q = [sq]) \<and> rmatch r y \<noteq> None"
      by blast
  next
    assume "\<exists>a q y. t = ''<img '' @ a @ ''src='' @ q @ y
        \<and> CHR ''>'' \<notin> set a \<and> (q = [] \<or> q = [dq] \<or> q = [sq]) \<and> rmatch r y \<noteq> None"
    then obtain a q y where t: "t = ''<img '' @ a @ ''src='' @ q @ y"
      and c: "CHR ''>'' \<notin> set a" "q = [] \<or> q = [dq] \<or> q = [sq]" "rmatch r y \<noteq> None"
      by blast
    from c(2,3) have "rmatch ?r3 (q @ y) \<noteq> None" unfolding m3 by blast
    then have "rmatch ?r2 (''src='' @ q @ y) \<noteq> None" unfolding m2 by blast
    with c(1) have "rmatch ?r1 (a @ ''src='' @ q @ y) \<noteq> None" unfolding m1 by blast
    then have "rmatch (imgPrefix @ r) (''<img '' @ a @ ''src='' @ q @ y) \<noteq> None"
      unfolding m0 by blast
    with t show "rmatch (imgPrefix @ r) t \<noteq> None" by simp
  qed
qed

text \<open>
  The pattern of a path without a character of the expression syntax other than the
  backslash is the path itself, character by character: the doubled backslashes of the
  escaped path are read as single ones.
\<close>

lemma compile_path_plain:
  "set p \<inter> set ''^$.*+?()[]{}|'' = {} \<Longrightarrow> compile_path (escapeBackslashes p) = Some (lits p)"
proof (induction p)
  case Nil
  then show ?case by (simp add: escapeBackslashes_def lits_def)
next
  case (Cons c p)
  then have IH: "compile_path (escapeBackslashes p) = Some (lits p)" by simp
  have esc: "escapeBackslashes (c # p) = (if c = bs then [bs, bs] else [c]) @ escapeBackslashes p"
    by (simp add: escapeBackslashes_def)
  show ?case
  proof (cases "c = bs")
    case True
    with esc IH show ?thesis by (simp add: lits_def)
  next
    case False
    from Cons.prems have "c \<notin> set ''^$.*+?()[]{}|''" by auto
    with False esc IH show ?thesis by (simp add: lits_def)
  qed
qed

lemma replace_first_no_match: "\<not> regex_test re s \<Longrightarrow> replace_first re replacement s = s"
  by (cases "rexec re s") (auto simp: regex_test_def replace_first_def)

lemma replaceSrc_plain:
  assumes "set tag \<inter> set ''^$.*+?()[]{}|'' = {}"
  shows "replaceSrc replaceOther html tag newSrcValue =
           Inr (replace_first (imgPrefix @ lits tag) (''$1'' @ newSrcValue) html)"
    and "\<not> (\<exists>u a q v. html = u @ ''<img '' @ a @ ''src='' @ q @ tag @ v
            \<and> CHR ''>'' \<notin> set a \<and> (q = [] \<or> q = [dq] \<or> q = [sq]))
         \<Longrightarrow> replaceSrc replaceOther html tag newSrcValue = Inr html"
proof -
  show a: "replaceSrc replaceOther html tag newSrcValue =
           Inr (replace_first (imgPrefix @ lits tag) (''$1'' @ newSrcValue) html)"
    using compile_path_plain [OF assms] by (simp add: replaceSrc_def)
  assume n: "\<not> (\<exists>u a q v. html = u @ ''<img '' @ a @ ''src='' @ q @ tag @ v
            \<and> CHR ''>'' \<notin> set a \<and> (q = [] \<or> q = [dq] \<or> q = [sq]))"
  have "\<not> regex_test (imgPrefix @ lits tag) html"
  proof
    assume "regex_test (imgPrefix @ lits tag) html"
    then obtain u t where ut: "html = u @ t" "rmatch (imgPrefix @ lits tag) t \<noteq> None"
      unfolding regex_test_def rexec_iff by blast
    from ut(2) obtain a q y where y: "t = ''<img '' @ a @ ''src='' @ q @ y"
      "CHR ''>'' \<notin> set a" "q = [] \<or> q = [dq] \<or> q = [sq]" "rmatch (lits tag) y \<noteq> None"
      unfolding rmatch_imgPrefix_iff by blast
    from y(4) obtain v where "y = tag @ v"
      using rmatch_lits_iff [of tag "[]" y] by auto
    with ut(1) y(1) have "html = u @ ''<img '' @ a @ ''src='' @ q @ tag @ v" by simp
    with y(2,3) n show False by blast
  qed
  with a show "replaceSrc replaceOther html tag newSrcValue = Inr html"
    by (simp add: replace_first_no_match)
qed

text \<open>
  A run with a Windows path: the backslash of the path is matched as a character, and
  the path in the link before the tag, which is not in an \<^verbatim>\<open><img \<close> tag, stays.
\<close>

lemma windows_path_run:
  "\<forall>replaceOther.
     handleRtfImages replaceOther plain_env
       (''<a href='' @ [dq] @ ''file:///C:'' @ [bs] @ ''a.png'' @ [dq] @ ''>x</a>''
        @ imgTag (''file:///C:'' @ [bs] @ ''a.png''))
       (rtfText [pictGroup png ''0a'' ''89504E47''])
       [''file:///C:'' @ [bs] @ ''a.png'']
     = ([], Inr (''<a href='' @ [dq] @ ''file:///C:'' @ [bs] @ ''a.png'' @ [dq] @ ''>x</a>''
                 @ imgTag ''data:image/png;base64,iVBORw==''))"
  by (intro allI; code_simp)

section \<open>The count check of the reconciler\<close>

text \<open>
  Claim C1. For every html, RTF text and list of scanned sources: when the records
  extracted from the RTF are not empty and their number (which the encoding keeps)
  differs from the number of scanned sources, \<^verbatim>\<open>handleRtfImages\<close> makes the one
  report \<^verbatim>\<open>pastetools-failed-image-extraction\<close> carrying both counts, the number of
  records and the number of tags, and returns the html it was given: nothing is
  substituted.
\<close>

theorem handleRtfImages_count_mismatch:
  assumes "images (extractFromRtf E rtf) \<noteq> []"
      and "length (images (extractFromRtf E rtf)) \<noteq> length imgTags"
  shows "(\<exists>newSrcValues.
            array_map (images (extractFromRtf E rtf)) (createSrcWithBase64 E) = Inr newSrcValues
            \<and> length newSrcValues = length (images (extractFromRtf E rtf)))
       \<and> handleRtfImages replaceOther E html rtf imgTags =
           ([FailedImageExtraction (length (images (extractFromRtf E rtf))) (length imgTags)],
            Inr html)"
proof -
  obtain srcs where srcs:
    "array_map (images (extractFromRtf E rtf)) (createSrcWithBase64 E) = Inr srcs"
    "length srcs = length (images (extractFromRtf E rtf))"
    using newSrcValues_exist by blast
  with assms have "handleRtfImages replaceOther E html rtf imgTags =
      ([FailedImageExtraction (length (images (extractFromRtf E rtf))) (length imgTags)],
       Inr html)"
    by (simp add: handleRtfImages_def Let_def)
  with srcs show ?thesis by blast
qed

text \<open>
  A run of C1: two pictures in the RTF, one tag in the html.
\<close>

theorem handleRtfImages_count_mismatch_witness:
  "images (extractFromRtf plain_env
      (rtfText [pictGroup png ''0a'' ''89504E47'', pictGroup png ''0b'' ''FFD8''])) \<noteq> []
   \<and> length (images (extractFromRtf plain_env
      (rtfText [pictGroup png ''0a'' ''89504E47'', pictGroup png ''0b'' ''FFD8'']))) \<noteq>
       length [''file://a.png'']
   \<and> (\<forall>replaceOther.
        handleRtfImages replaceOther plain_env (imgTag ''file://a.png'')
          (rtfText [pictGroup png ''0a'' ''89504E47'', pictGroup png ''0b'' ''FFD8''])
          [''file://a.png'']
        = ([FailedImageExtraction 2 1], Inr (imgTag ''file://a.png'')))"
proof -
  let ?rtf = "rtfText [pictGroup png ''0a'' ''89504E47'', pictGroup png ''0b'' ''FFD8'']"
  have n: "length (images (extractFromRtf plain_env ?rtf)) = 2" by code_simp
  then have a: "images (extractFromRtf plain_env ?rtf) \<noteq> []" by auto
  from n have b: "length (images (extractFromRtf plain_env ?rtf)) \<noteq> length [''file://a.png'']"
    by simp
  from handleRtfImages_count_mismatch [OF a b, THEN conjunct2] n a b
  show ?thesis by simp
qed

section \<open>Sources that do not begin with the file scheme\<close>

text \<open>
  Claim C2 says that a scanned source that does not begin with \<^verbatim>\<open>file://\<close> is
  left untouched in the output html. The code does otherwise on the html below. It has
  two tags; the source of the first, \<^verbatim>\<open>http://h/?src=file://a.png\<close>, does not begin
  with \<^verbatim>\<open>file://\<close>, the source of the second is \<^verbatim>\<open>file://a.png\<close>, and the RTF
  holds two PNG pictures. The turn for the second tag replaces the first match of
  \<^verbatim>\<open>(<img [^>]*src=["']?)file://a.png\<close> in the html, and that match lies inside
  the source of the first tag: in the output the first source has changed, to
  \<^verbatim>\<open>http://h/?src=\<close> followed by the data URL of the second picture, and the second
  source is still \<^verbatim>\<open>file://a.png\<close>. This holds whatever \<^verbatim>\<open>RegExp\<close> does for the
  patterns the model does not read.
\<close>

theorem other_source_rewritten:
  "extractTagsFromHtml (imgTag ''http://h/?src=file://a.png'' @ imgTag ''file://a.png'')
     = [''http://h/?src=file://a.png'', ''file://a.png'']
   \<and> str_indexOf ''http://h/?src=file://a.png'' ''file://'' = 14
   \<and> str_indexOf ''file://a.png'' ''file://'' = 0
   \<and> array_map
        (images (extractFromRtf plain_env
           (rtfText [pictGroup png ''0a'' ''89504E47'', pictGroup png ''0b'' ''FFD8''])))
        (createSrcWithBase64 plain_env)
     = Inr [Some ''data:image/png;base64,iVBORw=='', Some ''data:image/png;base64,/9g='']
   \<and> (\<forall>replaceOther.
        handleRtfImages replaceOther plain_env
          (imgTag ''http://h/?src=file://a.png'' @ imgTag ''file://a.png'')
          (rtfText [pictGroup png ''0a'' ''89504E47'', pictGroup png ''0b'' ''FFD8''])
          [''http://h/?src=file://a.png'', ''file://a.png'']
        = ([], Inr (imgTag ''http://h/?src=data:image/png;base64,/9g='' @ imgTag ''file://a.png'')))
   \<and> extractTagsFromHtml
        (imgTag ''http://h/?src=data:image/png;base64,/9g='' @ imgTag ''file://a.png'')
     = [''http://h/?src=data:image/png;base64,/9g='', ''file://a.png'']"
  by (intro conjI allI; code_simp)

section \<open>Records of an unsupported type\<close>

text \<open>
  Claim C3 says that a tag whose source begins with \<^verbatim>\<open>file://\<close> and whose record
  has no encoded source is reported with the record's type and its index, that only
  this tag is skipped, and that later tags with supported records are still rewritten.
  The code does otherwise on the html below. Both tags have the source
  \<^verbatim>\<open>file://a.png\<close>; the first picture of the RTF is an EMF, whose encoded source is
  none, the second a PNG. The turn at index 0 reports
  \<^verbatim>\<open>pastetools-unsupported-image\<close> with \<^verbatim>\<open>image/emf\<close> and 0 and leaves the html as
  it is. The turn at index 1 then replaces the first match of its pattern, which is
  the first tag: in the output the tag reported at index 0 carries the data URL of the
  second picture, and the tag at index 1 still has the source \<^verbatim>\<open>file://a.png\<close>.
  This holds whatever \<^verbatim>\<open>RegExp\<close> does for the patterns the model does not read.
\<close>

theorem skipped_tag_rewritten:
  "extractTagsFromHtml (imgTag ''file://a.png'' @ imgTag ''file://a.png'')
     = [''file://a.png'', ''file://a.png'']
   \<and> images (extractFromRtf plain_env
        (rtfText [pictGroup emf ''0a'' ''0100'', pictGroup png ''0b'' ''89504E47'']))
     = [\<lparr>id' = Some ''0a'', hex = None, type = ''image/emf''\<rparr>,
        \<lparr>id' = Some ''0b'', hex = Some ''89504E47'', type = ''image/png''\<rparr>]
   \<and> array_map
        (images (extractFromRtf plain_env
           (rtfText [pictGroup emf ''0a'' ''0100'', pictGroup png ''0b'' ''89504E47''])))
        (createSrcWithBase64 plain_env)
     = Inr [None, Some ''data:image/png;base64,iVBORw=='']
   \<and> (\<forall>replaceOther.
        handleRtfImages replaceOther plain_env (imgTag ''file://a.png'' @ imgTag ''file://a.png'')
          (rtfText [pictGroup emf ''0a'' ''0100'', pictGroup png ''0b'' ''89504E47''])
          [''file://a.png'', ''file://a.png'']
        = ([UnsupportedImage ''image/emf'' 0],
           Inr (imgTag ''data:image/png;base64,iVBORw=='' @ imgTag ''file://a.png'')))
   \<and> extractTagsFromHtml (imgTag ''data:image/png;base64,iVBORw=='' @ imgTag ''file://a.png'')
     = [''data:image/png;base64,iVBORw=='', ''file://a.png'']"
  by (intro conjI allI; code_simp)

section \<open>Two groups with one identity and one type\<close>

text \<open>
  Claim C4, as stated, fails. Two picture groups with the same \<^verbatim>\<open>\blipuid\<close> that
  both classify to \<^verbatim>\<open>image/emf\<close> give a sequence of length 1: the first record has
  no payload, so the second group is not taken for a duplicate, and the record built
  from it overwrites the first in place.
\<close>

theorem extractFromRtf_same_type_counterexample:
  "getGroups plain_env
     (removeGroups plain_env (rtfText [pictGroup emf ''0a'' ''0100'', pictGroup emf ''0a'' ''0100''])
        ''(?:(?:header|footer)[lrf]?|nonshppict|shprslt)'') ''pict''
     = Some [pictGroup emf ''0a'' ''0100'', pictGroup emf ''0a'' ''0100'']
   \<and> getImageId (pictGroup emf ''0a'' ''0100'') = Some ''0a''
   \<and> getImageType (pictGroup emf ''0a'' ''0100'') = ''image/emf''
   \<and> ret (extractFromRtf plain_env
        (rtfText [pictGroup emf ''0a'' ''0100'', pictGroup emf ''0a'' ''0100''])) = [1]
   \<and> length (images (extractFromRtf plain_env
        (rtfText [pictGroup emf ''0a'' ''0100'', pictGroup emf ''0a'' ''0100'']))) = 1"
  by code_simp

text \<open>
  Claim C4, amended. For every RTF input whose located picture groups are exactly two
  groups that share the same identity marker and classify to the same supported type
  (\<^verbatim>\<open>image/png\<close> or \<^verbatim>\<open>image/jpeg\<close>), the first of which has no
  \<^verbatim>\<open>\defshp\<close> and a payload that is not empty, the extracted sequence has length 2
  and its second element is the same reference as the first: one object was created,
  and both elements are its address.
\<close>

theorem extractFromRtf_duplicate_by_reference:
  assumes "getGroups E
             (removeGroups E rtf ''(?:(?:header|footer)[lrf]?|nonshppict|shprslt)'') ''pict''
           = Some [g1, g2]"
      and "getImageId g1 = Some a" and "getImageId g2 = Some a"
      and "getImageType g1 = getImageType g2"
      and "getImageType g1 \<in> set supportedImageTypes"
      and "str_indexOf g1 (bs # ''defshp'') = -1"
      and "getImageContent E g1 \<noteq> []"
  shows "ret (extractFromRtf E rtf) = [0, 0]
       \<and> heap (extractFromRtf E rtf) =
           [\<lparr>id' = Some a, hex = Some (getImageContent E g1), type = getImageType g1\<rparr>]"
proof -
  let ?init = "\<lparr>heap = [], ret = []\<rparr>"
  let ?r1 = "\<lparr>id' = Some a, hex = Some (getImageContent E g1), type = getImageType g1\<rparr>"
  let ?st1 = "\<lparr>heap = [?r1], ret = [0]\<rparr>"
  have i0: "getImageIndex ?init (Some a) = -1"
    by (simp add: getImageIndex_def images_def array_indexOf_def)
  from assms(5) have sup: "array_indexOf supportedImageTypes (\<lambda>t. t = getImageType g1) \<noteq> -1"
    by (simp only: isSupportedType_iff)
  have s1: "extract_step E ?init g1 = ?st1"
    using assms(2,6) i0 sup by (simp add: extract_step_def Let_def)
  have i1: "getImageIndex ?st1 (Some a) = 0"
    by (simp add: getImageIndex_def images_def array_indexOf_def)
  have s2: "extract_step E ?st1 g2 = \<lparr>heap = [?r1], ret = [0, 0]\<rparr>"
    using assms(3,4,7) i1 by (simp add: extract_step_def Let_def deref_def)
  from assms(1) s1 s2 show ?thesis by (simp add: extractFromRtf_def Let_def)
qed

text \<open>
  A run of the amended C4: the same PNG twice.
\<close>

theorem extractFromRtf_duplicate_by_reference_witness:
  "getGroups plain_env
     (removeGroups plain_env
        (rtfText [pictGroup png ''0a'' ''8950 4E47'', pictGroup png ''0a'' ''8950 4E47''])
        ''(?:(?:header|footer)[lrf]?|nonshppict|shprslt)'') ''pict''
     = Some [pictGroup png ''0a'' ''8950 4E47'', pictGroup png ''0a'' ''8950 4E47'']
   \<and> getImageId (pictGroup png ''0a'' ''8950 4E47'') = Some ''0a''
   \<and> getImageType (pictGroup png ''0a'' ''8950 4E47'') \<in> set supportedImageTypes
   \<and> str_indexOf (pictGroup png ''0a'' ''8950 4E47'') (bs # ''defshp'') = -1
   \<and> getImageContent plain_env (pictGroup png ''0a'' ''8950 4E47'') \<noteq> []
   \<and> ret (extractFromRtf plain_env
        (rtfText [pictGroup png ''0a'' ''8950 4E47'', pictGroup png ''0a'' ''8950 4E47''])) = [0, 0]
   \<and> heap (extractFromRtf plain_env
        (rtfText [pictGroup png ''0a'' ''8950 4E47'', pictGroup png ''0a'' ''8950 4E47'']))
       = [\<lparr>id' = Some ''0a'', hex = Some ''89504E47'', type = ''image/png''\<rparr>]"
proof -
  let ?g = "pictGroup png ''0a'' ''8950 4E47''"
  have a: "getGroups plain_env
     (removeGroups plain_env (rtfText [?g, ?g])
        ''(?:(?:header|footer)[lrf]?|nonshppict|shprslt)'') ''pict'' = Some [?g, ?g]"
    by code_simp
  have b: "getImageId ?g = Some ''0a''" by code_simp
  have t: "getImageType ?g = ''image/png''" by code_simp
  then have c: "getImageType ?g \<in> set supportedImageTypes" by (simp add: supportedImageTypes_def)
  have d: "str_indexOf ?g (bs # ''defshp'') = -1" by code_simp
  have h: "getImageContent plain_env ?g = ''89504E47''" by code_simp
  then have e: "getImageContent plain_env ?g \<noteq> []" by simp
  from extractFromRtf_duplicate_by_reference [OF a b b refl c d e] a b c d e h t
  show ?thesis by simp
qed

section \<open>Groups with the decorative shape marker\<close>




section \<open>Groups with a known identity and another type\<close>

text \<open>
  Claim C6, as stated, fails. The third group below has the identity of the first
  record, which has a payload and is not the last element, and classifies to another
  type; it holds \<^verbatim>\<open>\defshp\<close>. It is dropped: the state after the turn is the state
  before it, and the first record is not overwritten.
\<close>

theorem decorative_other_type_counterexample:
  "extract_loop plain_env \<lparr>heap = [], ret = []\<rparr>
     [pictGroup png ''0a'' ''89504E47'', pictGroup png ''0b'' ''0100'']
     = \<lparr>heap = [\<lparr>id' = Some ''0a'', hex = Some ''89504E47'', type = ''image/png''\<rparr>,
                \<lparr>id' = Some ''0b'', hex = Some ''0100'', type = ''image/png''\<rparr>],
        ret = [0, 1]\<rparr>
   \<and> getImageIndex
        \<lparr>heap = [\<lparr>id' = Some ''0a'', hex = Some ''89504E47'', type = ''image/png''\<rparr>,
                 \<lparr>id' = Some ''0b'', hex = Some ''0100'', type = ''image/png''\<rparr>],
         ret = [0, 1]\<rparr>
        (getImageId (pictGroup (jpeg @ bs # ''defshp'') ''0a'' ''FFD8'')) = 0
   \<and> getImageType (pictGroup (jpeg @ bs # ''defshp'') ''0a'' ''FFD8'') = ''image/jpeg''
   \<and> extract_step plain_env
        \<lparr>heap = [\<lparr>id' = Some ''0a'', hex = Some ''89504E47'', type = ''image/png''\<rparr>,
                 \<lparr>id' = Some ''0b'', hex = Some ''0100'', type = ''image/png''\<rparr>],
         ret = [0, 1]\<rparr>
        (pictGroup (jpeg @ bs # ''defshp'') ''0a'' ''FFD8'')
     = \<lparr>heap = [\<lparr>id' = Some ''0a'', hex = Some ''89504E47'', type = ''image/png''\<rparr>,
                \<lparr>id' = Some ''0b'', hex = Some ''0100'', type = ''image/png''\<rparr>],
        ret = [0, 1]\<rparr>
   \<and> images (extractFromRtf plain_env
        (rtfText [pictGroup png ''0a'' ''89504E47'', pictGroup png ''0b'' ''0100'',
                  pictGroup (jpeg @ bs # ''defshp'') ''0a'' ''FFD8'']))
     = [\<lparr>id' = Some ''0a'', hex = Some ''89504E47'', type = ''image/png''\<rparr>,
        \<lparr>id' = Some ''0b'', hex = Some ''0100'', type = ''image/png''\<rparr>]"
  by code_simp

text \<open>
  Claim C6, amended. During extraction, when the identity of a located group without
  \<^verbatim>\<open>\defshp\<close> is found at index \<open>k\<close>, the record there has a payload that is a
  non-empty string and its type differs from the group's type, then the group is dropped
  (the state is unchanged) if and only if \<open>k\<close> is the last index of the sequence built
  so far; when \<open>k\<close> is not the last index, a new record built from the group is
  created and its reference is stored at index \<open>k\<close>, in the place of the old one,
  the length of the sequence being unchanged.
\<close>

theorem extract_step_other_type:
  assumes "getImageIndex st (getImageId g) = k" and "k \<noteq> -1"
      and "hex (deref st (nat k)) = Some h" and "h \<noteq> []"
      and "type (deref st (nat k)) \<noteq> getImageType g"
      and "str_indexOf g (bs # ''defshp'') = -1"
  shows "(extract_step E st g = st \<longleftrightarrow> k = int (length (ret st)) - 1)
       \<and> (k \<noteq> int (length (ret st)) - 1 \<longrightarrow>
            extract_step E st g =
              \<lparr>heap = heap st @
                 [\<lparr>id' = getImageId g,
                   hex = (if getImageType g \<in> set supportedImageTypes
                          then Some (getImageContent E g) else None),
                   type = getImageType g\<rparr>],
               ret = (ret st)[nat k := length (heap st)]\<rparr>
            \<and> length (ret (extract_step E st g)) = length (ret st)
            \<and> nat k < length (ret st)
            \<and> ret (extract_step E st g) ! nat k = length (heap st))"
proof (cases "k = int (length (ret st)) - 1")
  case True
  with assms show ?thesis by (simp add: extract_step_def Let_def)
next
  case False
  from getImageIndex_found [of st "getImageId g"] assms(1,2)
  have range: "nat k < length (ret st)" by simp
  from False assms have step: "extract_step E st g =
      \<lparr>heap = heap st @
         [\<lparr>id' = getImageId g,
           hex = (if getImageType g \<in> set supportedImageTypes
                  then Some (getImageContent E g) else None),
           type = getImageType g\<rparr>],
       ret = (ret st)[nat k := length (heap st)]\<rparr>"
    by (simp add: extract_step_def Let_def isSupportedType_iff)
  then have "heap (extract_step E st g) \<noteq> heap st" by simp
  then have "extract_step E st g \<noteq> st" by auto
  with False step range show ?thesis by simp
qed

text \<open>
  Two turns of the amended C6 for a JPEG group with identity \<^verbatim>\<open>0a\<close>: after two
  PNG records its record takes the place of the first; after the first alone it is
  dropped.
\<close>

theorem extract_step_other_type_witness:
  "getImageIndex
     \<lparr>heap = [\<lparr>id' = Some ''0a'', hex = Some ''89504E47'', type = ''image/png''\<rparr>,
              \<lparr>id' = Some ''0b'', hex = Some ''0100'', type = ''image/png''\<rparr>],
      ret = [0, 1]\<rparr>
     (getImageId (pictGroup jpeg ''0a'' ''FFD8'')) = 0
   \<and> extract_step plain_env
        \<lparr>heap = [\<lparr>id' = Some ''0a'', hex = Some ''89504E47'', type = ''image/png''\<rparr>,
                 \<lparr>id' = Some ''0b'', hex = Some ''0100'', type = ''image/png''\<rparr>],
         ret = [0, 1]\<rparr>
        (pictGroup jpeg ''0a'' ''FFD8'')
     = \<lparr>heap = [\<lparr>id' = Some ''0a'', hex = Some ''89504E47'', type = ''image/png''\<rparr>,
                \<lparr>id' = Some ''0b'', hex = Some ''0100'', type = ''image/png''\<rparr>,
                \<lparr>id' = Some ''0a'', hex = Some ''FFD8'', type = ''image/jpeg''\<rparr>],
        ret = [2, 1]\<rparr>
   \<and> getImageIndex
        \<lparr>heap = [\<lparr>id' = Some ''0a'', hex = Some ''89504E47'', type = ''image/png''\<rparr>], ret = [0]\<rparr>
        (getImageId (pictGroup jpeg ''0a'' ''FFD8'')) = 0
   \<and> extract_step plain_env
        \<lparr>heap = [\<lparr>id' = Some ''0a'', hex = Some ''89504E47'', type = ''image/png''\<rparr>], ret = [0]\<rparr>
        (pictGroup jpeg ''0a'' ''FFD8'')
     = \<lparr>heap = [\<lparr>id' = Some ''0a'', hex = Some ''89504E47'', type = ''image/png''\<rparr>], ret = [0]\<rparr>"
proof -
  let ?st2 = "\<lparr>heap = [\<lparr>id' = Some ''0a'', hex = Some ''89504E47'', type = ''image/png''\<rparr>,
              \<lparr>id' = Some ''0b'', hex = Some ''0100'', type = ''image/png''\<rparr>],
      ret = [0, 1]\<rparr>"
  let ?st1 = "\<lparr>heap = [\<lparr>id' = Some ''0a'', hex = Some ''89504E47'', type = ''image/png''\<rparr>],
      ret = [0]\<rparr>"
  let ?g = "pictGroup jpeg ''0a'' ''FFD8''"
  have k2: "getImageIndex ?st2 (getImageId ?g) = 0" by code_simp
  have k1: "getImageIndex ?st1 (getImageId ?g) = 0" by code_simp
  have found: "(0::int) \<noteq> -1" by simp
  have h2: "hex (deref ?st2 (nat 0)) = Some ''89504E47''" by code_simp
  have h1: "hex (deref ?st1 (nat 0)) = Some ''89504E47''" by code_simp
  have ne: "''89504E47'' \<noteq> []" by simp
  have t2: "type (deref ?st2 (nat 0)) \<noteq> getImageType ?g" by code_simp
  have t1: "type (deref ?st1 (nat 0)) \<noteq> getImageType ?g" by code_simp
  have w: "str_indexOf ?g (bs # ''defshp'') = -1" by code_simp
  have not_last: "(0::int) \<noteq> int (length (ret ?st2)) - 1" by simp
  have last: "(0::int) = int (length (ret ?st1)) - 1" by simp
  have new: "\<lparr>id' = getImageId ?g,
      hex = (if getImageType ?g \<in> set supportedImageTypes
             then Some (getImageContent plain_env ?g) else None),
      type = getImageType ?g\<rparr> = \<lparr>id' = Some ''0a'', hex = Some ''FFD8'', type = ''image/jpeg''\<rparr>"
    by code_simp
  from extract_step_other_type [OF k2 found h2 ne t2 w, of plain_env,
      THEN conjunct2, THEN mp, OF not_last, THEN conjunct1]
  have "extract_step plain_env ?st2 ?g =
      \<lparr>heap = heap ?st2 @ [\<lparr>id' = Some ''0a'', hex = Some ''FFD8'', type = ''image/jpeg''\<rparr>],
       ret = (ret ?st2)[nat 0 := length (heap ?st2)]\<rparr>"
    unfolding new .
  then have a: "extract_step plain_env ?st2 ?g =
      \<lparr>heap = [\<lparr>id' = Some ''0a'', hex = Some ''89504E47'', type = ''image/png''\<rparr>,
               \<lparr>id' = Some ''0b'', hex = Some ''0100'', type = ''image/png''\<rparr>,
               \<lparr>id' = Some ''0a'', hex = Some ''FFD8'', type = ''image/jpeg''\<rparr>],
       ret = [2, 1]\<rparr>"
    by simp
  from extract_step_other_type [OF k1 found h1 ne t1 w, of plain_env, THEN conjunct1] last
  have b: "extract_step plain_env ?st1 ?g = ?st1" by blast
  from k2 a k1 b show ?thesis by (intro conjI)
qed

section \<open>The classifier\<close>

text \<open>
  Claim C7. The classifier tests its four markers in their fixed order and returns the
  type of the first one found in the group content: a content that holds
  \<^verbatim>\<open>\pngblip\<close> is \<^verbatim>\<open>image/png\<close>; failing that, one that holds
  \<^verbatim>\<open>\jpegblip\<close> is \<^verbatim>\<open>image/jpeg\<close>; failing that, one that holds
  \<^verbatim>\<open>\emfblip\<close> is \<^verbatim>\<open>image/emf\<close>; failing that, one that holds
  \<^verbatim>\<open>\wmetafile\<close> followed by a digit is \<^verbatim>\<open>image/wmf\<close>; a content that
  holds none of the markers is \<^verbatim>\<open>unknown\<close>.
\<close>

theorem getImageType_first_marker:
  "getImageType content =
     (if \<exists>u v. content = u @ (bs # ''pngblip'') @ v then ''image/png''
      else if \<exists>u v. content = u @ (bs # ''jpegblip'') @ v then ''image/jpeg''
      else if \<exists>u v. content = u @ (bs # ''emfblip'') @ v then ''image/emf''
      else if \<exists>u d v. content = u @ (bs # ''wmetafile'') @ d # v \<and> d \<in> set ''0123456789''
        then ''image/wmf''
      else ''unknown'')"
  unfolding getImageType_def recognizableImageTypes_def
  by (simp only: array_find.simps fst_conv snd_conv test_lits test_lits_digit option.case split: if_split)
     simp

section \<open>The scanner\<close>

text \<open>
  Claim C8 says that the scanner returns the \<^verbatim>\<open>src\<close> attribute value of every
  \<^verbatim>\<open><img ... src="..."> \<close> occurrence in document order, and nothing for an html
  without such an occurrence. On the html of the spec's example,
  \<^verbatim>\<open><p><img src="a.png"></p><img src="b.png">\<close>, and on the empty html, the code
  does so. It does otherwise on the two other htmls below. In
  \<^verbatim>\<open><img src="a.png" data-src="b.png">\<close> the value of the \<^verbatim>\<open>src\<close> attribute is
  \<^verbatim>\<open>a.png\<close>, and the scanner returns \<^verbatim>\<open>b.png\<close>, the value of another attribute:
  \<^verbatim>\<open>[^>]+\<close> is greedy, so the expression takes the last \<^verbatim>\<open>src="\<close> of a tag,
  whatever precedes it. The html \<^verbatim>\<open><img src="a.png\<close>, which ends inside the
  attribute value, has no \<^verbatim>\<open><img ... src="...">\<close> occurrence, and the scanner
  returns \<^verbatim>\<open>a.pn\<close>: the final \<^verbatim>\<open>[^>]+\<close> needs a character and takes the last
  one of the value.
\<close>

theorem extractTagsFromHtml_other_attribute:
  "extractTagsFromHtml
     (''<p><img src='' @ [dq] @ ''a.png'' @ [dq] @ ''></p><img src='' @ [dq] @ ''b.png'' @ [dq] @ ''>'')
     = [''a.png'', ''b.png'']
   \<and> extractTagsFromHtml [] = []
   \<and> extractTagsFromHtml
       (''<img src='' @ [dq] @ ''a.png'' @ [dq] @ '' data-src='' @ [dq] @ ''b.png'' @ [dq] @ ''>'')
     = [''b.png'']
   \<and> extractTagsFromHtml (''<img src='' @ [dq] @ ''a.png'') = [''a.pn'']"
  by (intro conjI; code_simp)

section \<open>Running the filter twice\<close>

text \<open>
  Claim C9 says that the filter applied to its own output returns that output. The code
  does otherwise on the html below. Both tags have the source \<^verbatim>\<open>file://a.png\<close>;
  the first picture of the RTF is an EMF, the second a PNG. The first run reports the
  first tag as unsupported and, at the turn for the second tag, replaces the first match
  in the html, the first tag. In its output the source \<^verbatim>\<open>file://a.png\<close> stands at
  the second position, where the record is the PNG, so the second run rewrites it: the
  output of the second run is not its input. This holds whatever \<^verbatim>\<open>RegExp\<close> does
  for the patterns the model does not read.
\<close>

theorem second_run_changes_output:
  "(\<forall>replaceOther.
      pasteFilters_image replaceOther plain_env
        (imgTag ''file://a.png'' @ imgTag ''file://a.png'') \<lparr>activeFilter = None\<rparr>
        (Some (rtfText [pictGroup emf ''0a'' ''0100'', pictGroup png ''0b'' ''89504E47'']))
      = ([UnsupportedImage ''image/emf'' 0],
         Inr (imgTag ''data:image/png;base64,iVBORw=='' @ imgTag ''file://a.png'')))
   \<and> (\<forall>replaceOther.
      pasteFilters_image replaceOther plain_env
        (imgTag ''data:image/png;base64,iVBORw=='' @ imgTag ''file://a.png'')
        \<lparr>activeFilter = None\<rparr>
        (Some (rtfText [pictGroup emf ''0a'' ''0100'', pictGroup png ''0b'' ''89504E47'']))
      = ([], Inr (imgTag ''data:image/png;base64,iVBORw==''
                  @ imgTag ''data:image/png;base64,iVBORw=='')))
   \<and> imgTag ''data:image/png;base64,iVBORw=='' @ imgTag ''file://a.png''
     \<noteq> imgTag ''data:image/png;base64,iVBORw=='' @ imgTag ''data:image/png;base64,iVBORw==''"
  by (intro conjI allI; code_simp)

section \<open>Payloads and supported types\<close>

text \<open>
  Claim C10. Every record in the sequence returned by \<^verbatim>\<open>extractFromRtf\<close> has a
  payload if and only if its type is one of the supported types. For such a record
  \<^verbatim>\<open>createSrcWithBase64\<close> returns the data URL of the payload when the type is
  supported and \<^verbatim>\<open>null\<close> otherwise, and it never reads the payload of a record
  that has none (which would raise a \<open>TypeError\<close>).
\<close>

theorem extractFromRtf_payload_iff_supported:
  assumes "img \<in> set (images (extractFromRtf E rtf))"
  shows "(hex img \<noteq> None \<longleftrightarrow> type img \<in> set supportedImageTypes)
       \<and> (if type img \<in> set supportedImageTypes
          then \<exists>h. hex img = Some h
                 \<and> createSrcWithBase64 E img =
                     Inr (Some (''data:'' @ type img @ '';base64,''
                                @ convertBytesToBase64 E (convertHexStringToBytes E h)))
          else createSrcWithBase64 E img = Inr None)
       \<and> createSrcWithBase64 E img \<noteq> Inl TypeError"
proof -
  from consistent_images [OF consistent_extractFromRtf assms]
  have iff: "hex img \<noteq> None \<longleftrightarrow> type img \<in> set supportedImageTypes" .
  show ?thesis
  proof (cases "type img \<in> set supportedImageTypes")
    case True
    with iff obtain h where h: "hex img = Some h" by auto
    from createSrcWithBase64_supported [OF True h] True h iff show ?thesis by simp
  next
    case False
    from createSrcWithBase64_unsupported [OF False] False iff show ?thesis by simp
  qed
qed

text \<open>
  A run of C10: a PNG, whose payload is written with a blank in the RTF, and an EMF.
\<close>

theorem extractFromRtf_payload_iff_supported_witness:
  "\<lparr>id' = Some ''0a'', hex = Some ''89504E47'', type = ''image/png''\<rparr>
     \<in> set (images (extractFromRtf plain_env
               (rtfText [pictGroup png ''0a'' ''8950 4E47'', pictGroup emf ''0b'' ''0100''])))
   \<and> createSrcWithBase64 plain_env
        \<lparr>id' = Some ''0a'', hex = Some ''89504E47'', type = ''image/png''\<rparr>
       = Inr (Some ''data:image/png;base64,iVBORw=='')
   \<and> \<lparr>id' = Some ''0b'', hex = None, type = ''image/emf''\<rparr>
     \<in> set (images (extractFromRtf plain_env
               (rtfText [pictGroup png ''0a'' ''8950 4E47'', pictGroup emf ''0b'' ''0100''])))
   \<and> createSrcWithBase64 plain_env \<lparr>id' = Some ''0b'', hex = None, type = ''image/emf''\<rparr>
       = Inr None"
proof -
  let ?rtf = "rtfText [pictGroup png ''0a'' ''8950 4E47'', pictGroup emf ''0b'' ''0100'']"
  let ?p = "\<lparr>id' = Some ''0a'', hex = Some ''89504E47'', type = ''image/png''\<rparr>"
  let ?e = "\<lparr>id' = Some ''0b'', hex = None, type = ''image/emf''\<rparr>"
  have recs: "images (extractFromRtf plain_env ?rtf) = [?p, ?e]" by code_simp
  then have p: "?p \<in> set (images (extractFromRtf plain_env ?rtf))"
    and e: "?e \<in> set (images (extractFromRtf plain_env ?rtf))" by simp_all
  have sp: "type ?p \<in> set supportedImageTypes" and se: "type ?e \<notin> set supportedImageTypes"
    by (simp_all add: supportedImageTypes_def)
  have enc: "convertBytesToBase64 plain_env (convertHexStringToBytes plain_env ''89504E47'')
      = ''iVBORw==''" by code_simp
  from extractFromRtf_payload_iff_supported [OF p] sp
  obtain h where "hex ?p = Some h"
    and "createSrcWithBase64 plain_env ?p =
           Inr (Some (''data:'' @ type ?p @ '';base64,''
                      @ convertBytesToBase64 plain_env (convertHexStringToBytes plain_env h)))"
    by auto
  with enc
  have "createSrcWithBase64 plain_env ?p = Inr (Some ''data:image/png;base64,iVBORw=='')"
    by simp
  moreover from extractFromRtf_payload_iff_supported [OF e] se
  have "createSrcWithBase64 plain_env ?e = Inr None" by simp
  ultimately show ?thesis using p e by simp
qed

end
